theory Spec2Isabelle
  imports Complex_Main
begin

section \<open>Python string primitives used by the chunkers\<close>

text \<open>
  Source text is a \<open>string\<close> (a list of characters).  The whitespace class is the one
  \<open>str.strip()\<close>, \<open>str.split()\<close> and the regular-expression class \<open>\s\<close> share on
  the code points below 256: space, tab, line feed, vertical tab, form feed, carriage
  return, the four separators 0x1C to 0x1F, next line (0x85) and no-break space (0xA0).
  Whitespace at higher code points is outside this model.
\<close>

abbreviation nl :: char where
  "nl \<equiv> CHR 0x0A"

definition is_space :: "char \<Rightarrow> bool" where
  "is_space c = (c \<in> set [CHR 0x20, CHR 0x09, CHR 0x0A, CHR 0x0B, CHR 0x0C, CHR 0x0D,
                            CHR 0x1C, CHR 0x1D, CHR 0x1E, CHR 0x1F, CHR 0x85, CHR 0xA0])"

text \<open>\<open>s.strip()\<close>: drop leading and trailing whitespace.\<close>

definition strip :: "string \<Rightarrow> string" where
  "strip s = rev (dropWhile is_space (rev (dropWhile is_space s)))"

text \<open>\<open>s.split()\<close>: the maximal runs of non-whitespace characters, in order.\<close>

fun split_ws_acc :: "string \<Rightarrow> string \<Rightarrow> string list" where
  "split_ws_acc cur [] = (if cur = [] then [] else [rev cur])"
| "split_ws_acc cur (c # cs) =
     (if is_space c
      then (if cur = [] then split_ws_acc [] cs else rev cur # split_ws_acc [] cs)
      else split_ws_acc (c # cur) cs)"

definition split_ws :: "string \<Rightarrow> string list" where
  "split_ws s = split_ws_acc [] s"

text \<open>Prepend a character to the first piece of a split.\<close>

fun cons_hd :: "char \<Rightarrow> string list \<Rightarrow> string list" where
  "cons_hd c [] = [[c]]"
| "cons_hd c (w # ws) = (c # w) # ws"

text \<open>\<open>s.split("\n")\<close>: cut at every line feed; the empty string gives one empty piece.\<close>

fun split_nl :: "string \<Rightarrow> string list" where
  "split_nl [] = [[]]"
| "split_nl (c # cs) = (if c = nl then [] # split_nl cs else cons_hd c (split_nl cs))"

text \<open>
  \<open>s.split("\n\n")\<close>: cut at every non-overlapping occurrence of two line feeds,
  scanning from the left.
\<close>

fun split_nlnl :: "string \<Rightarrow> string list" where
  "split_nlnl (a # b # cs) =
     (if a = nl \<and> b = nl then [] # split_nlnl cs else cons_hd a (split_nlnl (b # cs)))"
| "split_nlnl [a] = [[a]]"
| "split_nlnl [] = [[]]"

text \<open>Whether a string contains the paragraph separator \<open>"\n\n"\<close>.\<close>

fun has_nlnl :: "string \<Rightarrow> bool" where
  "has_nlnl (a # b # cs) = ((a = nl \<and> b = nl) \<or> has_nlnl (b # cs))"
| "has_nlnl [a] = False"
| "has_nlnl [] = False"

text \<open>\<open>sep.join(parts)\<close>.\<close>

fun join :: "string \<Rightarrow> string list \<Rightarrow> string" where
  "join sep [] = []"
| "join sep [x] = x"
| "join sep (x # y # ys) = x @ sep @ join sep (y # ys)"

text \<open>\<open>s.count("\n")\<close>, as an integer.\<close>

definition count_nl :: "string \<Rightarrow> int" where
  "count_nl s = int (length (filter (\<lambda>c. c = nl) s))"

text \<open>
  \<open>xs[i:j]\<close> for integer bounds: a negative bound counts from the end, and both bounds
  are clipped to the list.
\<close>

definition clip_index :: "int \<Rightarrow> int \<Rightarrow> nat" where
  "clip_index n i = nat (if i < 0 then max (n + i) 0 else min i n)"

definition py_slice :: "'a list \<Rightarrow> int \<Rightarrow> int \<Rightarrow> 'a list" where
  "py_slice xs i j =
     (let n = int (length xs); lo = clip_index n i; hi = clip_index n j
      in take (hi - lo) (drop lo xs))"

section \<open>Chunk metadata and chunks\<close>

text \<open>
  A chunker returns pairs \<open>(chunk_text, metadata)\<close>; the metadata dictionary has the
  four keys \<open>start_line\<close>, \<open>end_line\<close>, \<open>chunk_type\<close> and \<open>name\<close>.
\<close>

record ChunkMeta =
  start_line :: int
  end_line :: int
  chunk_type :: string
  name :: "string option"

type_synonym chunk_data = "string \<times> ChunkMeta"

section \<open>FallbackChunker (chunkers/fallback.py)\<close>

text \<open>
  \<open>_split_into_paragraphs\<close>: split on blank lines, keep the stripped non-empty pieces.
\<close>

definition split_into_paragraphs :: "string \<Rightarrow> string list" where
  "split_into_paragraphs content =
     map strip (filter (\<lambda>p. strip p \<noteq> []) (split_nlnl content))"

text \<open>
  \<open>_split_large_paragraph\<close>.  The \<open>while i < len(words)\<close> loop is written as the
  source has it: each round cuts \<open>words[i:i + max_chunk_size]\<close>, appends the chunk and
  adds \<open>max_chunk_size - chunk_overlap\<close> to \<open>i\<close>.  When that step is not positive the
  loop never leaves; the model then has no value (\<open>None\<close>).
\<close>

partial_function (option) split_loop ::
  "int \<Rightarrow> int \<Rightarrow> string list \<Rightarrow> int \<Rightarrow> int \<Rightarrow> chunk_data list \<Rightarrow> chunk_data list option" where
  "split_loop max_chunk_size chunk_overlap words i current_line chunks =
     (if i < int (length words)
      then (let chunk_words = py_slice words i (i + max_chunk_size);
                chunk_text = join '' '' chunk_words;
                line_count = count_nl chunk_text + 1
            in split_loop max_chunk_size chunk_overlap words
                 (i + (max_chunk_size - chunk_overlap))
                 (current_line + line_count)
                 (chunks @ [(chunk_text,
                    \<lparr>start_line = current_line, end_line = current_line + line_count - 1,
                     chunk_type = ''paragraph'', name = None\<rparr>)]))
      else Some chunks)"

declare split_loop.simps [code]

definition split_large_paragraph ::
  "int \<Rightarrow> int \<Rightarrow> string \<Rightarrow> int \<Rightarrow> chunk_data list option" where
  "split_large_paragraph max_chunk_size chunk_overlap paragraph start =
     split_loop max_chunk_size chunk_overlap (split_ws paragraph) 0 start []"

text \<open>The \<open>for para in paragraphs\<close> loop of \<open>chunk\<close>, with its two variables.\<close>

fun para_loop ::
  "int \<Rightarrow> int \<Rightarrow> string list \<Rightarrow> int \<Rightarrow> chunk_data list \<Rightarrow> chunk_data list option" where
  "para_loop max_chunk_size chunk_overlap [] current_line chunks = Some chunks"
| "para_loop max_chunk_size chunk_overlap (para # ps) current_line chunks =
     (if strip para = [] then para_loop max_chunk_size chunk_overlap ps current_line chunks
      else
        (let para_lines = count_nl para + 1;
             word_count = int (length (split_ws para))
         in if word_count \<le> max_chunk_size
            then para_loop max_chunk_size chunk_overlap ps (current_line + para_lines)
                   (chunks @ [(para,
                      \<lparr>start_line = current_line, end_line = current_line + para_lines - 1,
                       chunk_type = ''paragraph'', name = None\<rparr>)])
            else (case split_large_paragraph max_chunk_size chunk_overlap para current_line of
                    None \<Rightarrow> None
                  | Some sub_chunks \<Rightarrow>
                      para_loop max_chunk_size chunk_overlap ps (current_line + para_lines)
                        (chunks @ sub_chunks))))"

text \<open>\<open>FallbackChunker.chunk\<close>; the path argument is only logged.\<close>

definition fallback_chunk :: "int \<Rightarrow> int \<Rightarrow> string \<Rightarrow> chunk_data list option" where
  "fallback_chunk max_chunk_size chunk_overlap content =
     (if strip content = [] then Some []
      else
        (let lines = split_nl content;
             paragraphs = split_into_paragraphs content
         in if paragraphs = []
            then Some [(content,
                   \<lparr>start_line = 1, end_line = int (length lines),
                    chunk_type = ''block'', name = None\<rparr>)]
            else para_loop max_chunk_size chunk_overlap paragraphs 1 []))"

section \<open>MarkdownChunker (chunkers/markdown.py)\<close>

text \<open>
  \<open>re.match(r'^(#{1,6})\s+(.+)$', line)\<close> on a line without line feeds.  The hashes
  of group 1 must be followed by whitespace, so group 1 is the whole leading run of
  hashes, which therefore has one to six characters; \<open>\s+\<close> needs one whitespace
  character after it and \<open>.+\<close> at least one further character of any kind.  Group 2 is
  what follows the whitespace run (or, when nothing follows, its last character), so
  \<open>group(2).strip()\<close> is the stripped remainder of the line in both cases.  The result
  is the header name of a matching line, \<open>None\<close> for a line that does not match.
\<close>

definition header_match :: "string \<Rightarrow> string option" where
  "header_match line =
     (let hashes = takeWhile (\<lambda>c. c = CHR ''#'') line;
          rest = drop (length hashes) line
      in if 1 \<le> length hashes \<and> length hashes \<le> 6 \<and> 2 \<le> length rest
            \<and> is_space (hd rest) \<and> nl \<notin> set rest
         then Some (strip rest) else None)"

definition make_chunk :: "string list \<Rightarrow> int \<Rightarrow> int \<Rightarrow> string option \<Rightarrow> chunk_data" where
  "make_chunk lines start fin nm =
     (join [nl] lines,
      \<lparr>start_line = start, end_line = fin, chunk_type = ''section'', name = nm\<rparr>)"

text \<open>
  The \<open>for i, line in enumerate(lines, 1)\<close> loop; its state is \<open>chunks\<close>,
  \<open>current_chunk\<close>, \<open>current_start\<close> and \<open>header_name\<close>.
\<close>

fun md_loop ::
  "string list \<Rightarrow> int \<Rightarrow> chunk_data list \<Rightarrow> string list \<Rightarrow> int \<Rightarrow> string option
     \<Rightarrow> chunk_data list \<times> string list \<times> int \<times> string option" where
  "md_loop [] i chunks current_chunk current_start header_name =
     (chunks, current_chunk, current_start, header_name)"
| "md_loop (line # ls) i chunks current_chunk current_start header_name =
     (case header_match line of
        Some h \<Rightarrow>
          md_loop ls (i + 1)
            (if current_chunk \<noteq> []
             then chunks @ [make_chunk current_chunk current_start (i - 1) header_name]
             else chunks)
            [line] i (Some h)
      | None \<Rightarrow>
          md_loop ls (i + 1) chunks (current_chunk @ [line]) current_start header_name)"

text \<open>The step after the loop: the lines still open become the final chunk.\<close>

definition md_final ::
  "chunk_data list \<times> string list \<times> int \<times> string option \<Rightarrow> int \<Rightarrow> chunk_data list" where
  "md_final st n =
     (case st of (chunks, current_chunk, current_start, header_name) \<Rightarrow>
        if current_chunk \<noteq> []
        then chunks @ [make_chunk current_chunk current_start n header_name]
        else chunks)"

definition markdown_chunk :: "string \<Rightarrow> chunk_data list" where
  "markdown_chunk content =
     (if strip content = [] then []
      else
        (let lines = split_nl content;
             chunks = md_final (md_loop lines 1 [] [] 1 None) (int (length lines))
         in if chunks \<noteq> [] then chunks
            else [(content,
                   \<lparr>start_line = 1, end_line = int (length lines),
                    chunk_type = ''block'', name = None\<rparr>)]))"

section \<open>Data model (models.py)\<close>

text \<open>
  \<open>CodeChunk\<close> has the four metadata fields and, besides, the embedding vector, the
  text, the path, the language, the file hash, the indexing time and the branch.
  Floating-point numbers are idealised as reals.  The field \<open>text\<close> is called
  \<open>chunk_text\<close> here, the name the chunkers give it.
\<close>

record CodeChunk = ChunkMeta +
  vector :: "real list"
  chunk_text :: string
  path :: string
  language :: string
  file_hash :: string
  indexed_at :: real
  branch :: "string option"

record SearchResult =
  chunk :: CodeChunk
  score :: real

text \<open>
  The exceptions that occur.  Pydantic's \<open>ValidationError\<close> is a subclass of
  \<open>ValueError\<close>, which matters for the handlers \<open>except (ValueError, AttributeError)\<close>.
\<close>

datatype py_error =
  ValueError string
  | ValidationError
  | ZeroDivisionError
  | TypeError
  | AttributeError

fun is_ValueError :: "py_error \<Rightarrow> bool" where
  "is_ValueError (ValueError msg) = True"
| "is_ValueError ValidationError = True"
| "is_ValueError e = False"

text \<open>
  Constructing a model object validates its fields: \<open>vector: Vector(384)\<close>,
  \<open>start_line\<close> and \<open>end_line\<close> with \<open>ge=1\<close>, and \<open>score\<close> with \<open>ge=0, le=1\<close>.
\<close>

definition CodeChunk_valid :: "CodeChunk \<Rightarrow> bool" where
  "CodeChunk_valid c \<longleftrightarrow> length (vector c) = 384 \<and> 1 \<le> start_line c \<and> 1 \<le> end_line c"

definition new_CodeChunk :: "CodeChunk \<Rightarrow> py_error + CodeChunk" where
  "new_CodeChunk c = (if CodeChunk_valid c then Inr c else Inl ValidationError)"

definition new_SearchResult :: "CodeChunk \<Rightarrow> real \<Rightarrow> py_error + SearchResult" where
  "new_SearchResult c s =
     (if 0 \<le> s \<and> s \<le> 1 then Inr \<lparr>chunk = c, score = s\<rparr> else Inl ValidationError)"

definition SearchResult_valid :: "SearchResult \<Rightarrow> bool" where
  "SearchResult_valid r \<longleftrightarrow> CodeChunk_valid (chunk r) \<and> 0 \<le> score r \<and> score r \<le> 1"

section \<open>ResultEnhancer (result_enhancer.py)\<close>

text \<open>\<open>_calculate_overlap\<close>; the final division is Python's true division of integers.\<close>

definition calculate_overlap :: "int \<Rightarrow> int \<Rightarrow> int \<Rightarrow> int \<Rightarrow> real" where
  "calculate_overlap start1 end1 start2 end2 =
     (let overlap_start = max start1 start2;
          overlap_end = min end1 end2
      in if overlap_start > overlap_end then 0
         else
           (let overlap_lines = overlap_end - overlap_start + 1;
                range1_lines = end1 - start1 + 1;
                range2_lines = end2 - start2 + 1;
                smaller_range = min range1_lines range2_lines
            in if smaller_range > 0
               then real_of_int overlap_lines / real_of_int smaller_range else 0))"

abbreviation overlap_of :: "SearchResult \<Rightarrow> SearchResult \<Rightarrow> real" where
  "overlap_of r k \<equiv>
     calculate_overlap (start_line (chunk r)) (end_line (chunk r))
       (start_line (chunk k)) (end_line (chunk k))"

text \<open>
  \<open>deduplicate\<close>.  The dictionary \<open>by_file\<close> keeps its keys in insertion order, so it is
  an association list; a result goes to the list of its path, a new path is added at
  the end.
\<close>

fun by_file_add ::
  "(string \<times> SearchResult list) list \<Rightarrow> SearchResult \<Rightarrow> (string \<times> SearchResult list) list" where
  "by_file_add [] result = [(path (chunk result), [result])]"
| "by_file_add ((p, rs) # by_file) result =
     (if p = path (chunk result) then (p, rs @ [result]) # by_file
      else (p, rs) # by_file_add by_file result)"

definition group_by_file :: "SearchResult list \<Rightarrow> (string \<times> SearchResult list) list" where
  "group_by_file results = foldl by_file_add [] results"

text \<open>
  \<open>xs.sort(key=lambda r: r.score, reverse=True)\<close>: a stable sort by descending score.
\<close>

definition sort_by_score :: "SearchResult list \<Rightarrow> SearchResult list" where
  "sort_by_score rs = sort_key (\<lambda>r. - score r) rs"

text \<open>The inner loop over \<open>kept\<close>, which stops at the first overlap.\<close>

fun overlaps :: "real \<Rightarrow> SearchResult \<Rightarrow> SearchResult list \<Rightarrow> bool" where
  "overlaps overlap_threshold result [] = False"
| "overlaps overlap_threshold result (kept_result # kept) =
     (if overlap_of result kept_result \<ge> overlap_threshold then True
      else overlaps overlap_threshold result kept)"

text \<open>The loop over the sorted results of one file.\<close>

fun keep_loop :: "real \<Rightarrow> SearchResult list \<Rightarrow> SearchResult list \<Rightarrow> SearchResult list" where
  "keep_loop overlap_threshold [] kept = kept"
| "keep_loop overlap_threshold (result # file_results) kept =
     keep_loop overlap_threshold file_results
       (if \<not> overlaps overlap_threshold result kept then kept @ [result] else kept)"

definition deduplicate :: "SearchResult list \<Rightarrow> real \<Rightarrow> SearchResult list" where
  "deduplicate results overlap_threshold =
     (if results = [] then results
      else sort_by_score
             (concat (map (\<lambda>(p, file_results).
                             keep_loop overlap_threshold (sort_by_score file_results) [])
                        (group_by_file results))))"

text \<open>
  \<open>expand_context\<close>.  The file below the project root is missing, unreadable, or has a
  content (after newline translation); \<open>readlines\<close> cuts it into lines that keep their
  line feed.
\<close>

datatype file_state = Missing | Unreadable | Readable string

fun readlines :: "string \<Rightarrow> string list" where
  "readlines [] = []"
| "readlines (c # cs) = (if c = nl then [nl] # readlines cs else cons_hd c (readlines cs))"

definition expand_result ::
  "(string \<Rightarrow> file_state) \<Rightarrow> int \<Rightarrow> int \<Rightarrow> SearchResult \<Rightarrow> SearchResult" where
  "expand_result file_at lines_before lines_after result =
     (case file_at (path (chunk result)) of
        Missing \<Rightarrow> result
      | Unreadable \<Rightarrow> result
      | Readable content \<Rightarrow>
          (let lines = readlines content;
               start = max 1 (start_line (chunk result) - lines_before);
               fin = min (int (length lines)) (end_line (chunk result) + lines_after);
               expanded_text = concat (py_slice lines (start - 1) fin)
           in case new_CodeChunk
                     \<lparr>start_line = start, end_line = fin,
                      chunk_type = chunk_type (chunk result), name = name (chunk result),
                      vector = vector (chunk result), chunk_text = expanded_text,
                      path = path (chunk result), language = language (chunk result),
                      file_hash = file_hash (chunk result),
                      indexed_at = indexed_at (chunk result),
                      branch = branch (chunk result)\<rparr> of
                Inl e \<Rightarrow> result
              | Inr expanded_chunk \<Rightarrow>
                  (case new_SearchResult expanded_chunk (score result) of
                     Inl e \<Rightarrow> result
                   | Inr r \<Rightarrow> r)))"

text \<open>
  \<open>project_root\<close> is optional; \<open>file_at root_dir p\<close> is the state of the file
  \<open>root_dir / p\<close>.
\<close>

definition expand_context ::
  "(string \<Rightarrow> string \<Rightarrow> file_state) \<Rightarrow> SearchResult list \<Rightarrow> int \<Rightarrow> int \<Rightarrow> string option
     \<Rightarrow> SearchResult list" where
  "expand_context file_at results lines_before lines_after project_root =
     (case project_root of
        None \<Rightarrow> results
      | Some root_dir \<Rightarrow>
          if results = [] then results
          else map (expand_result (file_at root_dir) lines_before lines_after) results)"

section \<open>VectorStore (store.py)\<close>

text \<open>
  The storage engine (LanceDB) is outside the repository.  A query is a vector, a text for
  full-text search or a text for hybrid search, with a limit and an optional \<open>WHERE\<close>
  clause; the engine answers from the current rows with a list of raw hits, or raises.
  A raw hit is a row with the engine's \<open>_distance\<close> and \<open>_score\<close> entries, each of
  which may be absent.
\<close>

datatype query_kind = VectorQuery "real list" | FtsQuery string | HybridQuery string

record raw_hit =
  hit_row :: CodeChunk
  hit_distance :: "real option"
  hit_score :: "real option"

type_synonym engine =
  "CodeChunk list \<Rightarrow> query_kind \<Rightarrow> int \<Rightarrow> string option \<Rightarrow> py_error + raw_hit list"

record search_filters =
  file_filter :: "string option"
  branch_filter :: "string option"
  extensions :: "string list option"
  directories :: "string list option"
  chunk_types :: "string list option"
  languages :: "string list option"

record search_args = search_filters +
  query_vector :: "real list option"
  limit :: int
  min_score :: real
  query_text :: "string option"
  mode :: "string option"
  fts_weight :: real
  use_cache :: bool

text \<open>
  The arguments \<open>lru_cache\<close> compares: those of \<open>_execute_search_impl\<close>.  Its first
  argument, the digest of \<open>_generate_cache_key\<close>, is computed from the others and so
  adds nothing to the comparison.
\<close>

record cache_args = search_filters +
  c_query_text :: "string option"
  c_query_vector :: "real list option"
  c_mode :: string
  c_limit :: int
  c_fts_weight :: real
  c_min_score :: real

record store =
  rows :: "CodeChunk list"
  cache :: "(cache_args \<times> SearchResult list) list"
  cache_enabled :: bool
  cache_size :: int

text \<open>\<open>if s:\<close> on an optional string or list: neither \<open>None\<close> nor empty.\<close>

fun truthy :: "'a list option \<Rightarrow> bool" where
  "truthy None = False"
| "truthy (Some xs) = (xs \<noteq> [])"

text \<open>\<open>_apply_filters\<close>: the conditions, joined with \<open>AND\<close>; \<open>None\<close> when there are none.\<close>

definition apply_filters :: "'a search_filters_scheme \<Rightarrow> string option" where
  "apply_filters f =
     (let conditions =
            (case extensions f of
               Some exts \<Rightarrow>
                 if exts \<noteq> []
                 then [''('' @ join '' OR '' (map (\<lambda>ext. ''path LIKE '' @ [CHR 0x27] @ ''%'' @ ext @ [CHR 0x27]) exts) @ '')'']
                 else []
             | None \<Rightarrow> [])
          @ (case directories f of
               Some dirs \<Rightarrow>
                 if dirs \<noteq> []
                 then [''('' @ join '' OR '' (map (\<lambda>d. ''path LIKE '' @ [CHR 0x27] @ d @ ''%'' @ [CHR 0x27]) dirs) @ '')'']
                 else []
             | None \<Rightarrow> [])
          @ (case chunk_types f of
               Some ts \<Rightarrow>
                 if ts \<noteq> []
                 then [''chunk_type IN ('' @ join '', '' (map (\<lambda>t. [CHR 0x27] @ t @ [CHR 0x27]) ts) @ '')'']
                 else []
             | None \<Rightarrow> [])
          @ (case languages f of
               Some ls \<Rightarrow>
                 if ls \<noteq> []
                 then [''language IN ('' @ join '', '' (map (\<lambda>l. [CHR 0x27] @ l @ [CHR 0x27]) ls) @ '')'']
                 else []
             | None \<Rightarrow> [])
          @ (case file_filter f of
               Some ff \<Rightarrow>
                 if ff \<noteq> []
                 then [''path LIKE '' @ [CHR 0x27] @ ''%'' @ ff @ ''%'' @ [CHR 0x27]]
                 else []
             | None \<Rightarrow> [])
          @ (case branch_filter f of
               Some bf \<Rightarrow>
                 if bf \<noteq> [] then [''branch = '' @ [CHR 0x27] @ bf @ [CHR 0x27]] else []
             | None \<Rightarrow> [])
      in if conditions \<noteq> [] then Some (join '' AND '' conditions) else None)"

text \<open>
  \<open>_convert_results\<close>, one raw hit: the score by score type (a missing entry counts as
  0.0; dividing by zero raises), then the two validated constructions.
\<close>

definition convert_result :: "raw_hit \<Rightarrow> string \<Rightarrow> py_error + SearchResult" where
  "convert_result result score_type =
     (case (if score_type = ''distance''
            then (let distance = (case hit_distance result of None \<Rightarrow> 0 | Some d \<Rightarrow> d)
                  in if 1 + distance = 0 then Inl ZeroDivisionError
                     else Inr (1 / (1 + distance)))
            else if score_type = ''fts''
            then Inr (case hit_score result of None \<Rightarrow> 0 | Some sc \<Rightarrow> sc)
            else if score_type = ''hybrid''
            then Inr (case hit_score result of None \<Rightarrow> 0 | Some sc \<Rightarrow> sc)
            else Inr 0) of
        Inl e \<Rightarrow> Inl e
      | Inr sc \<Rightarrow>
          (case new_CodeChunk (hit_row result) of
             Inl e \<Rightarrow> Inl e
           | Inr c \<Rightarrow> new_SearchResult c sc))"

fun convert_results :: "raw_hit list \<Rightarrow> string \<Rightarrow> py_error + SearchResult list" where
  "convert_results [] score_type = Inr []"
| "convert_results (result # results) score_type =
     (case convert_result result score_type of
        Inl e \<Rightarrow> Inl e
      | Inr r \<Rightarrow>
          (case convert_results results score_type of
             Inl e \<Rightarrow> Inl e
           | Inr search_results \<Rightarrow> Inr (r # search_results)))"

text \<open>\<open>_post_filter\<close>.\<close>

definition post_filter :: "SearchResult list \<Rightarrow> real \<Rightarrow> SearchResult list" where
  "post_filter results m = filter (\<lambda>r. score r \<ge> m) results"

text \<open>\<open>_search_vector\<close>, \<open>_search_fts\<close> and \<open>_search_hybrid\<close>.\<close>

definition search_vector ::
  "engine \<Rightarrow> CodeChunk list \<Rightarrow> real list \<Rightarrow> 'a search_args_scheme
     \<Rightarrow> py_error + SearchResult list" where
  "search_vector eng tbl qv a =
     (case eng tbl (VectorQuery qv) (limit a) (apply_filters a) of
        Inl e \<Rightarrow> Inl e
      | Inr results \<Rightarrow> convert_results results ''distance'')"

definition search_fts ::
  "engine \<Rightarrow> CodeChunk list \<Rightarrow> string \<Rightarrow> 'a search_args_scheme
     \<Rightarrow> py_error + SearchResult list" where
  "search_fts eng tbl qt a =
     (case (case eng tbl (FtsQuery qt) (limit a) (apply_filters a) of
              Inl e \<Rightarrow> Inl e
            | Inr results \<Rightarrow> convert_results results ''fts'') of
        Inl e \<Rightarrow> if is_ValueError e \<or> e = AttributeError then Inr [] else Inl e
      | Inr rs \<Rightarrow> Inr rs)"

definition search_hybrid ::
  "engine \<Rightarrow> CodeChunk list \<Rightarrow> string \<Rightarrow> 'a search_args_scheme
     \<Rightarrow> py_error + SearchResult list" where
  "search_hybrid eng tbl qt a =
     (case (case eng tbl (HybridQuery qt) (limit a) (apply_filters a) of
              Inl e \<Rightarrow> Inl e
            | Inr results \<Rightarrow> convert_results results ''hybrid'') of
        Inl e \<Rightarrow>
          if is_ValueError e \<or> e = AttributeError
          then (case query_vector a of
                  Some qv \<Rightarrow> if qv \<noteq> [] then search_vector eng tbl qv a else Inr []
                | None \<Rightarrow> Inr [])
          else Inl e
      | Inr rs \<Rightarrow> Inr rs)"

text \<open>
  The routing by mode, shared by \<open>search\<close> and \<open>_execute_search_impl\<close>, which differ
  in the message for an unknown mode only.  The validation in \<open>search\<close> excludes a
  vector or text that is \<open>None\<close> where the mode needs one; such an engine call would
  fail with a \<open>TypeError\<close>.
\<close>

definition route_search ::
  "string \<Rightarrow> engine \<Rightarrow> CodeChunk list \<Rightarrow> string \<Rightarrow> 'a search_args_scheme
     \<Rightarrow> py_error + SearchResult list" where
  "route_search invalid_msg eng tbl m a =
     (if m = ''vector''
      then (case query_vector a of
              Some qv \<Rightarrow> search_vector eng tbl qv a | None \<Rightarrow> Inl TypeError)
      else if m = ''fts''
      then (case query_text a of
              Some qt \<Rightarrow> search_fts eng tbl qt a | None \<Rightarrow> Inl TypeError)
      else if m = ''hybrid''
      then (case query_text a of
              Some qt \<Rightarrow> search_hybrid eng tbl qt a | None \<Rightarrow> Inl TypeError)
      else Inl (ValueError invalid_msg))"

definition execute_search_impl ::
  "engine \<Rightarrow> CodeChunk list \<Rightarrow> string \<Rightarrow> 'a search_args_scheme
     \<Rightarrow> py_error + SearchResult list" where
  "execute_search_impl eng tbl m a =
     (case route_search (''Invalid search mode: '' @ m) eng tbl m a of
        Inl e \<Rightarrow> Inl e
      | Inr results \<Rightarrow> Inr (post_filter results (min_score a)))"

text \<open>
  The \<open>lru_cache\<close> around \<open>_execute_search_impl\<close>.  Lists cannot be hashed, so a call
  with a vector or a list filter raises \<open>TypeError\<close> before the function runs.  A hit
  moves the entry to the front; a miss evaluates the function and stores the result
  unless it raised; the cache holds at most \<open>cache_size\<close> entries.
\<close>

definition make_cache_args :: "string \<Rightarrow> 'a search_args_scheme \<Rightarrow> cache_args" where
  "make_cache_args m a =
     \<lparr>file_filter = file_filter a, branch_filter = branch_filter a,
      extensions = extensions a, directories = directories a,
      chunk_types = chunk_types a, languages = languages a,
      c_query_text = query_text a, c_query_vector = query_vector a, c_mode = m,
      c_limit = limit a, c_fts_weight = fts_weight a, c_min_score = min_score a\<rparr>"

definition hashable :: "cache_args \<Rightarrow> bool" where
  "hashable k \<longleftrightarrow>
     c_query_vector k = None \<and> extensions k = None \<and> directories k = None
     \<and> chunk_types k = None \<and> languages k = None"

definition cached_search ::
  "engine \<Rightarrow> store \<Rightarrow> string \<Rightarrow> 'a search_args_scheme
     \<Rightarrow> (py_error + SearchResult list) \<times> store" where
  "cached_search eng st m a =
     (let k = make_cache_args m a
      in if \<not> hashable k then (Inl TypeError, st)
         else
           (case map_of (cache st) k of
              Some results \<Rightarrow>
                (Inr results,
                 st\<lparr>cache := (k, results) # filter (\<lambda>kv. fst kv \<noteq> k) (cache st)\<rparr>)
            | None \<Rightarrow>
                (case execute_search_impl eng (rows st) m a of
                   Inl e \<Rightarrow> (Inl e, st)
                 | Inr results \<Rightarrow>
                     (Inr results,
                      st\<lparr>cache := take (nat (cache_size st)) ((k, results) # cache st)\<rparr>))))"

text \<open>\<open>search\<close>: mode resolution, validation of the inputs, cache, routing, filter.\<close>

definition resolve_mode ::
  "string option \<Rightarrow> string option \<Rightarrow> real list option \<Rightarrow> py_error + string" where
  "resolve_mode md qt qv =
     (case md of
        Some m \<Rightarrow> Inr m
      | None \<Rightarrow>
          if truthy qt \<and> truthy qv then Inr ''hybrid''
          else if truthy qv then Inr ''vector''
          else if truthy qt then Inr ''fts''
          else Inl (ValueError ''Either query_text or query_vector must be provided''))"

definition validate_inputs ::
  "string \<Rightarrow> string option \<Rightarrow> real list option \<Rightarrow> py_error + unit" where
  "validate_inputs m qt qv =
     (if m = ''vector'' \<and> qv = None
      then Inl (ValueError ''query_vector required for vector mode'')
      else if (m = ''fts'' \<or> m = ''hybrid'') \<and> qt = None
      then Inl (ValueError ''query_text required for fts/hybrid mode'')
      else Inr ())"

definition uncached_search ::
  "engine \<Rightarrow> store \<Rightarrow> string \<Rightarrow> 'a search_args_scheme \<Rightarrow> py_error + SearchResult list" where
  "uncached_search eng st m a =
     (case route_search
             (''Invalid search mode: '' @ m @ ''. Use '' @ [CHR 0x27] @ ''vector'' @ [CHR 0x27]
                @ '', '' @ [CHR 0x27] @ ''fts'' @ [CHR 0x27] @ '', or '' @ [CHR 0x27]
                @ ''hybrid'' @ [CHR 0x27])
             eng (rows st) m a of
        Inl e \<Rightarrow> Inl e
      | Inr results \<Rightarrow> Inr (post_filter results (min_score a)))"

definition search ::
  "engine \<Rightarrow> store \<Rightarrow> 'a search_args_scheme \<Rightarrow> (py_error + SearchResult list) \<times> store" where
  "search eng st a =
     (case resolve_mode (mode a) (query_text a) (query_vector a) of
        Inl e \<Rightarrow> (Inl e, st)
      | Inr m \<Rightarrow>
          (case validate_inputs m (query_text a) (query_vector a) of
             Inl e \<Rightarrow> (Inl e, st)
           | Inr u \<Rightarrow>
               if cache_enabled st \<and> use_cache a
               then (case cached_search eng st m a of
                       (Inl e, st') \<Rightarrow>
                         if e = TypeError then (uncached_search eng st' m a, st')
                         else (Inl e, st')
                     | (Inr results, st') \<Rightarrow> (Inr results, st'))
               else (uncached_search eng st m a, st)))"

text \<open>
  The engine evaluates the \<open>WHERE\<close> predicates the store writes as text, for
  \<open>table.delete\<close> and for a scan: it answers a predicate text with the set of rows it
  holds of, or raises on a text it does not accept.  The store interpolates a path or a
  branch name into the text between single quotes, unescaped, so what the predicate means
  is for the engine to say.
\<close>

type_synonym where_eval = "string \<Rightarrow> py_error + (CodeChunk \<Rightarrow> bool)"

text \<open>\<open>clear_cache\<close> and \<open>add_chunks\<close>.\<close>

definition clear_cache :: "store \<Rightarrow> store" where
  "clear_cache st = (if cache_enabled st then st\<lparr>cache := []\<rparr> else st)"

definition add_chunks :: "store \<Rightarrow> CodeChunk list \<Rightarrow> store" where
  "add_chunks st chunks =
     (if chunks = [] then st else clear_cache (st\<lparr>rows := rows st @ chunks\<rparr>))"

text \<open>
  \<open>delete_by_path\<close> and \<open>delete_by_branch\<close>: the rows the predicate holds of are
  removed and the difference of the row counts is returned; an exception of the engine
  is logged and raised again, the table as it was.
\<close>

definition delete_by_path :: "where_eval \<Rightarrow> store \<Rightarrow> string \<Rightarrow> (py_error + int) \<times> store" where
  "delete_by_path wh st p =
     (let count_before = int (length (rows st))
      in case wh (''path = '' @ [CHR 0x27] @ p @ [CHR 0x27]) of
           Inl e \<Rightarrow> (Inl e, st)
         | Inr pred \<Rightarrow>
             (let st' = st\<lparr>rows := filter (\<lambda>c. \<not> pred c) (rows st)\<rparr>;
                  count_after = int (length (rows st'));
                  deleted = count_before - count_after
              in (Inr deleted, st')))"

definition delete_by_branch :: "where_eval \<Rightarrow> store \<Rightarrow> string \<Rightarrow> (py_error + int) \<times> store" where
  "delete_by_branch wh st b =
     (let count_before = int (length (rows st))
      in case wh (''branch = '' @ [CHR 0x27] @ b @ [CHR 0x27]) of
           Inl e \<Rightarrow> (Inl e, st)
         | Inr pred \<Rightarrow>
             (let st' = st\<lparr>rows := filter (\<lambda>c. \<not> pred c) (rows st)\<rparr>;
                  count_after = int (length (rows st'));
                  deleted = count_before - count_after
              in (Inr deleted, st')))"

text \<open>
  \<open>get_file_hash\<close>: the hash of the first row the scan with the predicate returns;
  \<open>None\<close> when there is no such row and when the engine raises.
\<close>

definition get_file_hash :: "where_eval \<Rightarrow> store \<Rightarrow> string \<Rightarrow> string option" where
  "get_file_hash wh st p =
     (case wh (''path = '' @ [CHR 0x27] @ p @ [CHR 0x27]) of
        Inl e \<Rightarrow> None
      | Inr pred \<Rightarrow>
          (case take 1 (filter pred (rows st)) of
             [] \<Rightarrow> None
           | c # cs \<Rightarrow> Some (file_hash c)))"

text \<open>
  The engine reads the predicate written for a path as the comparison of the \<open>path\<close>
  column with that path.  This is what the store relies on; it is the engine's reading
  of a path without a quote.
\<close>

definition selects_path :: "where_eval \<Rightarrow> string \<Rightarrow> bool" where
  "selects_path wh p \<longleftrightarrow>
     wh (''path = '' @ [CHR 0x27] @ p @ [CHR 0x27]) = Inr (\<lambda>c. path c = p)"

text \<open>
  A stand-in for the engine's predicates in the examples: it accepts the comparison of
  \<open>path\<close> or \<open>branch\<close> with a literal between single quotes that contains no quote,
  and raises on every other text.
\<close>

definition sample_where :: where_eval where
  "sample_where w =
     (if take 8 w = ''path = '' @ [CHR 0x27] \<and> 9 \<le> length w \<and> last w = CHR 0x27
         \<and> CHR 0x27 \<notin> set (butlast (drop 8 w))
      then Inr (\<lambda>c. path c = butlast (drop 8 w))
      else if take 10 w = ''branch = '' @ [CHR 0x27] \<and> 11 \<le> length w \<and> last w = CHR 0x27
         \<and> CHR 0x27 \<notin> set (butlast (drop 10 w))
      then Inr (\<lambda>c. branch c = Some (butlast (drop 10 w)))
      else Inl (ValueError ''invalid predicate''))"

text \<open>
  What every entry of the query cache satisfies, since only results of
  \<open>_execute_search_impl\<close> are stored: the mode of its key is one of the three modes, and
  its results are validated and passed the score filter of its key.
\<close>

definition cache_ok :: "store \<Rightarrow> bool" where
  "cache_ok st \<longleftrightarrow>
     (\<forall>kv\<in>set (cache st).
        (c_mode (fst kv) = ''vector'' \<or> c_mode (fst kv) = ''fts'' \<or> c_mode (fst kv) = ''hybrid'')
        \<and> (\<forall>r\<in>set (snd kv). 0 \<le> score r \<and> score r \<le> 1 \<and> c_min_score (fst kv) \<le> score r))"

text \<open>
  A stand-in for the engine in the examples: every row matches every query, at distance 0
  and with relevance 1/2, up to the limit.
\<close>

definition sample_engine :: engine where
  "sample_engine tbl q n w =
     Inr (map (\<lambda>c. \<lparr>hit_row = c, hit_distance = Some 0, hit_score = Some (1 / 2)\<rparr>)
            (take (nat n) tbl))"

section \<open>Indexer (indexer.py), serial mode\<close>

text \<open>
  What the indexer reads from outside: the files below the base path (by relative path),
  the size limit of the configuration, the SHA-256 digest, the language detected for a
  path, the chunker \<open>_get_chunker\<close> selects for a language (the tree-sitter chunkers
  are outside the repository), the embedding model, the clock and the current branch.
  Chunker and embedding model may raise.
\<close>

record index_env =
  files :: "string \<Rightarrow> file_state"
  max_file_size :: int
  sha256 :: "string \<Rightarrow> string"
  detect_language :: "string \<Rightarrow> string"
  chunker :: "string \<Rightarrow> string \<Rightarrow> py_error + chunk_data list"
  embed_batch :: "string list \<Rightarrow> py_error + real list list"
  now :: real
  current_branch :: "string option"

text \<open>\<open>compute_file_hash\<close>: the digest of the content, the empty string on an error.\<close>

definition compute_file_hash :: "index_env \<Rightarrow> string \<Rightarrow> string" where
  "compute_file_hash env p =
     (case files env p of Readable content \<Rightarrow> sha256 env content | _ \<Rightarrow> [])"

text \<open>\<open>should_index_file\<close>: the file can be read and is not larger than the limit.\<close>

definition should_index_file :: "index_env \<Rightarrow> string \<Rightarrow> bool" where
  "should_index_file env p =
     (case files env p of
        Readable content \<Rightarrow> \<not> int (length content) > max_file_size env
      | _ \<Rightarrow> False)"

text \<open>
  The fields the loop of \<open>_index_file\<close> passes to \<open>CodeChunk(...)\<close> for one pair of
  \<open>zip(chunks_data, embeddings)\<close>.
\<close>

definition chunk_fields ::
  "index_env \<Rightarrow> string \<Rightarrow> string \<Rightarrow> string \<Rightarrow> chunk_data \<times> real list \<Rightarrow> CodeChunk" where
  "chunk_fields env rel_path lang fhash x =
     (case x of ((text_m, metadata), embedding) \<Rightarrow>
        \<lparr>start_line = start_line metadata, end_line = end_line metadata,
         chunk_type = chunk_type metadata, name = name metadata,
         vector = embedding, chunk_text = text_m, path = rel_path, language = lang,
         file_hash = fhash, indexed_at = now env, branch = current_branch env\<rparr>)"

text \<open>The loop that builds the \<open>CodeChunk\<close> objects from \<open>zip(chunks_data, embeddings)\<close>.\<close>

fun build_chunks ::
  "index_env \<Rightarrow> string \<Rightarrow> string \<Rightarrow> string \<Rightarrow> chunk_data list \<Rightarrow> real list list
     \<Rightarrow> py_error + CodeChunk list" where
  "build_chunks env rel_path lang fhash ((text_m, metadata) # chunks_data) (embedding # embeddings) =
     (case new_CodeChunk (chunk_fields env rel_path lang fhash ((text_m, metadata), embedding)) of
        Inl e \<Rightarrow> Inl e
      | Inr c \<Rightarrow>
          (case build_chunks env rel_path lang fhash chunks_data embeddings of
             Inl e \<Rightarrow> Inl e
           | Inr cs \<Rightarrow> Inr (c # cs)))"
| "build_chunks env rel_path lang fhash chunks_data embeddings = Inr []"

text \<open>
  \<open>_index_file\<close> outside the parallel mode: the number of chunks added or the exception
  raised, and the store as the call leaves it.
\<close>

definition index_file ::
  "where_eval \<Rightarrow> index_env \<Rightarrow> store \<Rightarrow> string \<Rightarrow> (py_error + int) \<times> store" where
  "index_file wh env st p =
     (case files env p of
        Readable content \<Rightarrow>
          if strip content = [] then (Inr 0, st)
          else
            (let fhash = compute_file_hash env p
             in case delete_by_path wh st p of
                  (Inl e, st1) \<Rightarrow> (Inl e, st1)
                | (Inr deleted, st1) \<Rightarrow>
                    (let lang = detect_language env p
                     in case chunker env lang content of
                          Inl e \<Rightarrow> (Inl e, st1)
                        | Inr chunks_data \<Rightarrow>
                            if chunks_data = [] then (Inr 0, st1)
                            else
                              (case embed_batch env (map fst chunks_data) of
                                 Inl e \<Rightarrow> (Inl e, st1)
                               | Inr embeddings \<Rightarrow>
                                   (case build_chunks env p lang fhash chunks_data embeddings of
                                      Inl e \<Rightarrow> (Inl e, st1)
                                    | Inr chunks \<Rightarrow>
                                        (Inr (int (length chunks)), add_chunks st1 chunks)))))
      | _ \<Rightarrow> (Inr 0, st))"

text \<open>
  The body of the loop of \<open>_index_files_serial\<close> for one file; the counters are
  \<open>(indexed_files, total_chunks, skipped_files)\<close>.  An exception of \<open>_index_file\<close> is
  logged and the loop goes on.
\<close>

definition index_one ::
  "where_eval \<Rightarrow> index_env \<Rightarrow> bool \<Rightarrow> (int \<times> int \<times> int) \<times> store \<Rightarrow> string
     \<Rightarrow> (int \<times> int \<times> int) \<times> store" where
  "index_one wh env force acc p =
     (case acc of ((indexed_files, total_chunks, skipped_files), st) \<Rightarrow>
        if \<not> should_index_file env p
        then ((indexed_files, total_chunks, skipped_files + 1), st)
        else if \<not> force \<and> get_file_hash wh st p = Some (compute_file_hash env p)
        then ((indexed_files, total_chunks, skipped_files + 1), st)
        else
          (case index_file wh env st p of
             (Inr chunks_added, st') \<Rightarrow>
               if chunks_added > 0
               then ((indexed_files + 1, total_chunks + chunks_added, skipped_files), st')
               else ((indexed_files, total_chunks, skipped_files), st')
           | (Inl e, st') \<Rightarrow> ((indexed_files, total_chunks, skipped_files), st')))"

definition index_files_serial ::
  "where_eval \<Rightarrow> index_env \<Rightarrow> store \<Rightarrow> string list \<Rightarrow> bool \<Rightarrow> (int \<times> int \<times> int) \<times> store" where
  "index_files_serial wh env st fs force = foldl (index_one wh env force) ((0, 0, 0), st) fs"

text \<open>
  A file is stable in a store when indexing it without \<open>force\<close> leaves the store as it
  is.
\<close>

definition stable_file :: "where_eval \<Rightarrow> index_env \<Rightarrow> store \<Rightarrow> string \<Rightarrow> bool" where
  "stable_file wh env st p \<longleftrightarrow> (\<forall>cnt. snd (index_one wh env False (cnt, st) p) = st)"

text \<open>
  An environment for the examples: one file \<open>a.txt\<close> with the given content, a stand-in
  digest, a chunker that makes one block of the whole content, and an embedding model
  that returns a zero vector for every text.
\<close>

definition sample_env :: "string \<Rightarrow> index_env" where
  "sample_env content =
     \<lparr>files = (\<lambda>p. if p = ''a.txt'' then Readable content else Missing),
      max_file_size = 2097152,
      sha256 = (\<lambda>c. ''sha256:'' @ c),
      detect_language = (\<lambda>p. ''text''),
      chunker = (\<lambda>lang c. Inr [(c, \<lparr>start_line = 1, end_line = int (length (split_nl c)),
                                        chunk_type = ''block'', name = None\<rparr>)]),
      embed_batch = (\<lambda>texts. Inr (map (\<lambda>t. replicate 384 0) texts)),
      now = 0,
      current_branch = None\<rparr>"

text \<open>The distinct paths of a result list, in order of first occurrence.\<close>

definition paths_of :: "SearchResult list \<Rightarrow> string list" where
  "paths_of rs = rev (remdups (rev (map (\<lambda>r. path (chunk r)) rs)))"

text \<open>
  A result as the tests build them (tests/test_result_enhancer.py): a chunk of the given
  path and line range with a 384-dimensional vector, and the given score.
\<close>

definition sample_result :: "string \<Rightarrow> int \<Rightarrow> int \<Rightarrow> real \<Rightarrow> SearchResult" where
  "sample_result p s e sc =
     \<lparr>chunk = \<lparr>start_line = s, end_line = e, chunk_type = ''function'', name = None,
               vector = replicate 384 0, chunk_text = ''code'', path = p,
               language = ''python'', file_hash = ''abc'', indexed_at = 0, branch = None\<rparr>,
      score = sc\<rparr>"

text \<open>
  Files as the tests write them (tests/test_result_enhancer.py): a five-line file, an
  empty file, and no other file.
\<close>

definition sample_file_at :: "string \<Rightarrow> string \<Rightarrow> file_state" where
  "sample_file_at root_dir p =
     (if p = ''a.py''
      then Readable (''l1'' @ [nl] @ ''l2'' @ [nl] @ ''l3'' @ [nl] @ ''l4'' @ [nl] @ ''l5'' @ [nl])
      else if p = ''empty.py'' then Readable []
      else Missing)"

text \<open>
  The arguments of a \<open>search\<close> call with the defaults of the source for everything but
  vector, text and mode; and a store of one chunk with the default cache settings.
\<close>

definition sample_args ::
  "real list option \<Rightarrow> string option \<Rightarrow> string option \<Rightarrow> search_args" where
  "sample_args qv qt md =
     \<lparr>file_filter = None, branch_filter = None, extensions = None, directories = None,
      chunk_types = None, languages = None,
      query_vector = qv, limit = 10, min_score = 0, query_text = qt, mode = md,
      fts_weight = 1 / 2, use_cache = True\<rparr>"

definition sample_store :: store where
  "sample_store =
     \<lparr>rows = [chunk (sample_result ''a.py'' 1 10 (9 / 10))], cache = [],
      cache_enabled = True, cache_size = 100\<rparr>"

section \<open>Properties of the string primitives\<close>

lemma split_nl_nonempty: "split_nl s \<noteq> []"
  by (induction s) (auto split: list.splits elim: cons_hd.elims)

lemma join_nl_cons_hd: "ws \<noteq> [] \<Longrightarrow> join [nl] (cons_hd c ws) = c # join [nl] ws"
  by (cases "([nl], ws)" rule: join.cases) auto

lemma join_split_nl: "join [nl] (split_nl s) = s"
proof (induction s)
  case Nil
  show ?case by simp
next
  case (Cons c cs)
  obtain w ws where sp: "split_nl cs = w # ws"
    using split_nl_nonempty [of cs] by (cases "split_nl cs") auto
  show ?case
  proof (cases "c = nl")
    case True
    with Cons sp show ?thesis by simp
  next
    case False
    with Cons show ?thesis by (simp add: join_nl_cons_hd split_nl_nonempty)
  qed
qed

lemma strip_empty_iff: "strip s = [] \<longleftrightarrow> (\<forall>c\<in>set s. is_space c)"
proof -
  have "strip s = [] \<longleftrightarrow> dropWhile is_space (rev (dropWhile is_space s)) = []"
    by (simp add: strip_def)
  also have "\<dots> \<longleftrightarrow> (\<forall>c\<in>set (dropWhile is_space s). is_space c)"
    by (simp add: dropWhile_eq_Nil_conv)
  also have "\<dots> \<longleftrightarrow> (\<forall>c\<in>set s. is_space c)"
  proof
    assume a: "\<forall>c\<in>set (dropWhile is_space s). is_space c"
    have "dropWhile is_space s = []"
    proof (rule ccontr)
      assume ne: "dropWhile is_space s \<noteq> []"
      then have "\<not> is_space (hd (dropWhile is_space s))" by (rule hd_dropWhile)
      moreover have "hd (dropWhile is_space s) \<in> set (dropWhile is_space s)"
        using ne by simp
      ultimately show False using a by blast
    qed
    then show "\<forall>c\<in>set s. is_space c" by (simp add: dropWhile_eq_Nil_conv)
  next
    assume "\<forall>c\<in>set s. is_space c"
    then show "\<forall>c\<in>set (dropWhile is_space s). is_space c"
      using set_dropWhileD by fastforce
  qed
  finally show ?thesis .
qed

lemma set_split_nl: "l \<in> set (split_nl s) \<Longrightarrow> set l \<subseteq> set s"
proof (induction s arbitrary: l)
  case Nil
  then show ?case by simp
next
  case (Cons c cs)
  obtain w ws where sp: "split_nl cs = w # ws"
    using split_nl_nonempty [of cs] by (cases "split_nl cs") auto
  show ?case
  proof (cases "c = nl")
    case True
    with Cons show ?thesis by auto
  next
    case False
    with Cons.prems sp have "l = c # w \<or> l \<in> set ws" by auto
    moreover have "set w \<subseteq> set cs" using Cons.IH [of w] sp by simp
    moreover have "l \<in> set ws \<Longrightarrow> set l \<subseteq> set cs" using Cons.IH [of l] sp by simp
    ultimately show ?thesis by auto
  qed
qed

section \<open>Header-based chunking\<close>

lemma md_loop_no_header:
  "\<forall>l\<in>set ls. header_match l = None \<Longrightarrow>
   md_loop ls i chunks cur st hn = (chunks, cur @ ls, st, hn)"
  by (induction ls arbitrary: i cur) auto

lemma md_loop_append:
  "md_loop (xs @ ys) i chunks cur st hn =
     (case md_loop xs i chunks cur st hn of
        (chunks', cur', st', hn') \<Rightarrow> md_loop ys (i + int (length xs)) chunks' cur' st' hn')"
  by (induction xs arbitrary: i chunks cur st hn) (auto split: option.splits simp: algebra_simps)

lemma md_loop_open_chunk:
  "cur \<noteq> [] \<Longrightarrow>
   \<exists>c rest. md_final (md_loop ls i chunks cur st hn) n = chunks @ c # rest
      \<and> name (snd c) = hn \<and> start_line (snd c) = st \<and> chunk_type (snd c) = ''section''"
proof (induction ls arbitrary: i chunks cur st hn)
  case Nil
  then show ?case by (simp add: md_final_def make_chunk_def)
next
  case (Cons line ls)
  show ?case
  proof (cases "header_match line")
    case None
    with Cons.IH [of "cur @ [line]" "i + 1" chunks st hn] Cons.prems show ?thesis by simp
  next
    case (Some h)
    from Cons.IH [of "[line]" "i + 1" "chunks @ [make_chunk cur st (i - 1) hn]" i "Some h"]
    obtain c rest where
      "md_final (md_loop ls (i + 1) (chunks @ [make_chunk cur st (i - 1) hn]) [line] i (Some h)) n
         = (chunks @ [make_chunk cur st (i - 1) hn]) @ c # rest"
      by auto
    with Some Cons.prems show ?thesis
      by (auto simp: make_chunk_def)
  qed
qed

lemma header_match_hash: "header_match l = Some h \<Longrightarrow> CHR ''#'' \<in> set l"
  unfolding header_match_def Let_def
  by (cases l) (auto split: if_splits)

lemma header_line_not_blank:
  assumes "l \<in> set (split_nl s)" "header_match l = Some h"
  shows "strip s \<noteq> []"
proof -
  have "CHR ''#'' \<in> set s" using assms set_split_nl header_match_hash by blast
  moreover have "\<not> is_space CHR ''#''" by (simp add: is_space_def)
  ultimately show ?thesis by (auto simp: strip_empty_iff)
qed

lemma markdown_no_headers:
  assumes "strip content \<noteq> []" "\<forall>l\<in>set (split_nl content). header_match l = None"
  shows "markdown_chunk content =
     [(content, \<lparr>start_line = 1, end_line = int (length (split_nl content)),
                 chunk_type = ''section'', name = None\<rparr>)]"
  using assms
  by (simp add: markdown_chunk_def md_final_def md_loop_no_header split_nl_nonempty
        make_chunk_def join_split_nl)

lemma markdown_preamble:
  assumes sp: "split_nl content = pre @ hl # post" and pre: "pre \<noteq> []"
    and nh: "\<forall>l\<in>set pre. header_match l = None" and h: "header_match hl = Some h"
  shows "\<exists>c rest. markdown_chunk content =
           (join [nl] pre, \<lparr>start_line = 1, end_line = int (length pre),
                            chunk_type = ''section'', name = None\<rparr>) # c # rest
         \<and> name (snd c) = Some h \<and> start_line (snd c) = int (length pre) + 1"
proof -
  have nb: "strip content \<noteq> []"
    using header_line_not_blank [of hl content h] sp h by simp
  let ?n = "int (length (split_nl content))"
  let ?first = "make_chunk pre 1 (int (length pre)) None"
  have loop: "md_loop (split_nl content) 1 [] [] 1 None =
      md_loop post (2 + int (length pre)) [?first] [hl] (1 + int (length pre)) (Some h)"
    using nh h pre by (simp add: sp md_loop_append md_loop_no_header algebra_simps)
  obtain c rest where fin:
    "md_final (md_loop post (2 + int (length pre)) [?first] [hl] (1 + int (length pre)) (Some h)) ?n
       = [?first] @ c # rest"
    and c: "name (snd c) = Some h" "start_line (snd c) = 1 + int (length pre)"
    using md_loop_open_chunk [of "[hl]" post "2 + int (length pre)" "[?first]"
        "1 + int (length pre)" "Some h" ?n]
    by auto
  have "markdown_chunk content = md_final (md_loop (split_nl content) 1 [] [] 1 None) ?n"
    using nb fin loop by (simp add: markdown_chunk_def Let_def)
  with loop fin have "markdown_chunk content = ?first # c # rest" by simp
  with c show ?thesis by (auto simp: make_chunk_def)
qed

lemma markdown_example:
  "markdown_chunk (''# A'' @ [nl, nl] @ ''x'' @ [nl, nl] @ ''## B'' @ [nl, nl] @ ''y'') =
     [(''# A'' @ [nl, nl] @ ''x'' @ [nl],
       \<lparr>start_line = 1, end_line = 4, chunk_type = ''section'', name = Some ''A''\<rparr>),
      (''## B'' @ [nl, nl] @ ''y'',
       \<lparr>start_line = 5, end_line = 7, chunk_type = ''section'', name = Some ''B''\<rparr>)]"
  by code_simp

text \<open>
  Claim C6, as stated, fails for content without header lines: the chunk built after the
  loop is always typed \<open>section\<close>, so the \<open>block\<close> branch is never reached.  The plain
  text \<open>plain text\<close> is chunked into one \<open>section\<close> chunk, not the \<open>block\<close> chunk the
  claim describes.
\<close>

theorem markdown_chunk_no_header_counterexample:
  "markdown_chunk ''plain text'' =
     [(''plain text'',
       \<lparr>start_line = 1, end_line = 1, chunk_type = ''section'', name = None\<rparr>)]
   \<and> markdown_chunk ''plain text'' \<noteq>
     [(''plain text'',
       \<lparr>start_line = 1, end_line = 1, chunk_type = ''block'', name = None\<rparr>)]"
  by code_simp

text \<open>
  Claim C6, amended.  Chunking \<open>"# A\n\nx\n\n## B\n\ny"\<close> yields exactly two chunks
  named A and B, in order, the first ending on line 4, the line before the second header
  on line 5.  In general: when the first header line is preceded by lines \<open>pre\<close>, these
  become the first chunk, with name null, spanning lines 1 to \<open>length pre\<close>, and the next
  chunk starts at the header and carries its name; content that is not blank and has no
  header line becomes one whole-file chunk typed \<open>section\<close> with name null; blank or
  empty content yields no chunk.
\<close>

theorem markdown_chunk_sections:
  "markdown_chunk (''# A'' @ [nl, nl] @ ''x'' @ [nl, nl] @ ''## B'' @ [nl, nl] @ ''y'') =
     [(''# A'' @ [nl, nl] @ ''x'' @ [nl],
       \<lparr>start_line = 1, end_line = 4, chunk_type = ''section'', name = Some ''A''\<rparr>),
      (''## B'' @ [nl, nl] @ ''y'',
       \<lparr>start_line = 5, end_line = 7, chunk_type = ''section'', name = Some ''B''\<rparr>)]
   \<and> (split_nl c1 = pre @ hl # post \<and> pre \<noteq> [] \<and> (\<forall>l\<in>set pre. header_match l = None)
        \<and> header_match hl = Some h
      \<longrightarrow> (\<exists>c rest. markdown_chunk c1 =
             (join [nl] pre, \<lparr>start_line = 1, end_line = int (length pre),
                               chunk_type = ''section'', name = None\<rparr>) # c # rest
           \<and> name (snd c) = Some h \<and> start_line (snd c) = int (length pre) + 1))
   \<and> (strip c2 \<noteq> [] \<and> (\<forall>l\<in>set (split_nl c2). header_match l = None)
      \<longrightarrow> markdown_chunk c2 =
            [(c2, \<lparr>start_line = 1, end_line = int (length (split_nl c2)),
                    chunk_type = ''section'', name = None\<rparr>)])
   \<and> (strip c3 = [] \<longrightarrow> markdown_chunk c3 = [])"
  using markdown_example markdown_preamble [of c1 pre hl post h] markdown_no_headers [of c2]
  by (simp add: markdown_chunk_def)

theorem markdown_chunk_sections_witness:
  "split_nl (''intro'' @ [nl] @ ''# T'') = [''intro''] @ ''# T'' # []
   \<and> [''intro''] \<noteq> [] \<and> header_match ''intro'' = None
   \<and> header_match ''# T'' = Some ''T''
   \<and> (\<exists>c rest. markdown_chunk (''intro'' @ [nl] @ ''# T'') =
         (''intro'', \<lparr>start_line = 1, end_line = 1, chunk_type = ''section'', name = None\<rparr>)
           # c # rest
       \<and> name (snd c) = Some ''T'' \<and> start_line (snd c) = 2)
   \<and> strip ''plain text'' \<noteq> []
   \<and> split_nl ''plain text'' = [''plain text''] \<and> header_match ''plain text'' = None
   \<and> markdown_chunk ''plain text'' =
        [(''plain text'',
          \<lparr>start_line = 1, end_line = 1, chunk_type = ''section'', name = None\<rparr>)]
   \<and> strip [CHR 0x20, nl] = [] \<and> markdown_chunk [CHR 0x20, nl] = []"
proof -
  have h1: "split_nl (''intro'' @ [nl] @ ''# T'') = [''intro''] @ ''# T'' # []" by code_simp
  have h2: "header_match ''intro'' = None" by code_simp
  have h3: "header_match ''# T'' = Some ''T''" by code_simp
  have h4: "strip ''plain text'' \<noteq> []" by code_simp
  have h5: "header_match ''plain text'' = None" by code_simp
  have h6: "strip [CHR 0x20, nl] = []" by code_simp
  have h7: "split_nl ''plain text'' = [''plain text'']" by code_simp
  show ?thesis
    using markdown_chunk_sections [of "''intro'' @ [nl] @ ''# T''" "[''intro'']" "''# T''" "[]"
        "''T''" "''plain text''" "[CHR 0x20, nl]"] h1 h2 h3 h4 h5 h6 h7
    by simp
qed

section \<open>Paragraph fallback chunking\<close>

lemma split_nlnl_no_sep: "\<not> has_nlnl s \<Longrightarrow> split_nlnl s = [s]"
  by (induction s rule: split_nlnl.induct) auto

lemma strip_has_nonspace:
  assumes "strip s \<noteq> []"
  shows "\<exists>c\<in>set (strip s). \<not> is_space c"
proof -
  let ?u = "dropWhile is_space (rev (dropWhile is_space s))"
  from assms have ne: "?u \<noteq> []" by (simp add: strip_def)
  then have "\<not> is_space (hd ?u)" by (rule hd_dropWhile)
  moreover have "hd ?u \<in> set (strip s)" using ne by (simp add: strip_def)
  ultimately show ?thesis by blast
qed

lemma strip_strip_nonempty: "strip s \<noteq> [] \<Longrightarrow> strip (strip s) \<noteq> []"
  using strip_has_nonspace [of s] by (auto simp: strip_empty_iff)

lemma paragraphs_single:
  "strip c \<noteq> [] \<Longrightarrow> \<not> has_nlnl c \<Longrightarrow> split_into_paragraphs c = [strip c]"
  by (simp add: split_into_paragraphs_def split_nlnl_no_sep)

lemma fallback_single_small:
  assumes "strip c \<noteq> []" "\<not> has_nlnl c" "int (length (split_ws (strip c))) \<le> mx"
  shows "fallback_chunk mx ov c =
     Some [(strip c, \<lparr>start_line = 1, end_line = count_nl (strip c) + 1,
                       chunk_type = ''paragraph'', name = None\<rparr>)]"
  using assms by (simp add: fallback_chunk_def paragraphs_single strip_strip_nonempty Let_def)

lemma fallback_single_large:
  assumes "strip c \<noteq> []" "\<not> has_nlnl c" "mx < int (length (split_ws (strip c)))"
  shows "fallback_chunk mx ov c = split_large_paragraph mx ov (strip c) 1"
  using assms
  by (simp add: fallback_chunk_def paragraphs_single strip_strip_nonempty Let_def
      split: option.splits)

lemma length_cons_hd: "ws \<noteq> [] \<Longrightarrow> length (cons_hd c ws) = length ws"
  by (cases ws) simp_all

lemma length_split_nl: "int (length (split_nl s)) = count_nl s + 1"
  by (induction s) (simp_all add: count_nl_def length_cons_hd split_nl_nonempty)

lemma count_nl_append: "count_nl (a @ b) = count_nl a + count_nl b"
  by (simp add: count_nl_def)

lemma count_nl_rev: "count_nl (rev a) = count_nl a"
  by (simp add: count_nl_def rev_filter [symmetric])

lemma count_nl_none: "nl \<notin> set a \<Longrightarrow> count_nl a = 0"
  by (induction a) (auto simp: count_nl_def)

lemma strip_decompose:
  assumes ne: "strip s \<noteq> []"
  shows "s = takeWhile is_space s @ strip s @ rev (takeWhile is_space (rev s))"
proof -
  let ?d = "dropWhile is_space s"
  have d: "?d \<noteq> []"
  proof
    assume e: "?d = []"
    have "strip s = rev (dropWhile is_space (rev ?d))" by (simp only: strip_def)
    also have "\<dots> = []" by (simp only: e rev.simps dropWhile.simps)
    finally show False using ne by simp
  qed
  then have "\<not> is_space (hd ?d)" by (rule hd_dropWhile)
  moreover have "hd ?d \<in> set (rev ?d)" using d by simp
  ultimately have t: "takeWhile is_space (rev ?d @ rev (takeWhile is_space s))
      = takeWhile is_space (rev ?d)"
    by (intro takeWhile_append1) auto
  have "rev s = rev ?d @ rev (takeWhile is_space s)"
    by (metis rev_append takeWhile_dropWhile_id)
  with t have tr: "takeWhile is_space (rev s) = takeWhile is_space (rev ?d)" by simp
  have "rev ?d = takeWhile is_space (rev ?d) @ dropWhile is_space (rev ?d)" by simp
  then have "?d = rev (dropWhile is_space (rev ?d)) @ rev (takeWhile is_space (rev ?d))"
    by (metis rev_append rev_rev_ident)
  then have "?d = strip s @ rev (takeWhile is_space (rev s))"
    by (simp add: strip_def tr)
  moreover have "s = takeWhile is_space s @ ?d" by simp
  ultimately show ?thesis by metis
qed

lemma count_nl_strip:
  assumes "strip s \<noteq> []" "nl \<notin> set (takeWhile is_space s)"
  shows "count_nl (strip s) + 1
      = int (length (split_nl s)) - count_nl (takeWhile is_space (rev s))"
proof -
  have "count_nl s = count_nl (takeWhile is_space s) + count_nl (strip s)
      + count_nl (takeWhile is_space (rev s))"
    using arg_cong [OF strip_decompose [OF assms(1)], of count_nl]
    by (simp add: count_nl_append count_nl_rev)
  with count_nl_none [OF assms(2)] show ?thesis by (simp add: length_split_nl)
qed

text \<open>
  Claim C5, amended.  Empty or whitespace-only content yields zero chunks.  Content that
  is not blank and contains no \<open>"\n\n"\<close> separator is one paragraph, the content with
  surrounding whitespace stripped.  When its word count is at most \<open>max_chunk_size\<close> it
  yields exactly one chunk, of type \<open>paragraph\<close>, whose text is that paragraph.  When no
  line break precedes the first character that is not blank, the range of the chunk
  runs from line 1 to the last line that is not blank, which is the number of lines of
  the content less the line breaks in its trailing whitespace; for content without
  surrounding whitespace the text is the whole content and the range is the whole file.
  When the word count is larger, the texts of the chunks are those of the window
  splitting of the paragraph, and with no line break before the first character that is
  not blank the chunks are those of the window splitting from line 1.  Of the range of
  a text after leading line breaks nothing is said.
\<close>

theorem fallback_chunk_single_paragraph:
  "(strip c1 = [] \<longrightarrow> fallback_chunk mx ov c1 = Some [])
   \<and> (strip c2 \<noteq> [] \<and> \<not> has_nlnl c2 \<and> int (length (split_ws (strip c2))) \<le> mx
      \<longrightarrow> (\<exists>s e. fallback_chunk mx ov c2 =
                   Some [(strip c2, \<lparr>start_line = s, end_line = e,
                                      chunk_type = ''paragraph'', name = None\<rparr>)]))
   \<and> (strip c2 \<noteq> [] \<and> \<not> has_nlnl c2 \<and> int (length (split_ws (strip c2))) \<le> mx
        \<and> nl \<notin> set (takeWhile is_space c2)
      \<longrightarrow> fallback_chunk mx ov c2 =
            Some [(strip c2,
                   \<lparr>start_line = 1,
                    end_line = int (length (split_nl c2))
                               - count_nl (takeWhile is_space (rev c2)),
                    chunk_type = ''paragraph'', name = None\<rparr>)])
   \<and> (c4 \<noteq> [] \<and> strip c4 = c4 \<and> \<not> has_nlnl c4 \<and> int (length (split_ws c4)) \<le> mx
      \<longrightarrow> fallback_chunk mx ov c4 =
            Some [(c4, \<lparr>start_line = 1, end_line = int (length (split_nl c4)),
                         chunk_type = ''paragraph'', name = None\<rparr>)])
   \<and> (strip c3 \<noteq> [] \<and> \<not> has_nlnl c3 \<and> mx < int (length (split_ws (strip c3)))
      \<longrightarrow> map_option (map fst) (fallback_chunk mx ov c3)
            = map_option (map fst) (split_large_paragraph mx ov (strip c3) 1))
   \<and> (strip c3 \<noteq> [] \<and> \<not> has_nlnl c3 \<and> mx < int (length (split_ws (strip c3)))
        \<and> nl \<notin> set (takeWhile is_space c3)
      \<longrightarrow> fallback_chunk mx ov c3 = split_large_paragraph mx ov (strip c3) 1)"
proof -
  have 1: "strip c1 = [] \<longrightarrow> fallback_chunk mx ov c1 = Some []"
    by (simp add: fallback_chunk_def)
  have 2: "strip c2 \<noteq> [] \<and> \<not> has_nlnl c2 \<and> int (length (split_ws (strip c2))) \<le> mx
      \<longrightarrow> (\<exists>s e. fallback_chunk mx ov c2 =
                   Some [(strip c2, \<lparr>start_line = s, end_line = e,
                                      chunk_type = ''paragraph'', name = None\<rparr>)])"
    using fallback_single_small [of c2 mx ov] by blast
  have 3: "strip c2 \<noteq> [] \<and> \<not> has_nlnl c2 \<and> int (length (split_ws (strip c2))) \<le> mx
        \<and> nl \<notin> set (takeWhile is_space c2)
      \<longrightarrow> fallback_chunk mx ov c2 =
            Some [(strip c2,
                   \<lparr>start_line = 1,
                    end_line = int (length (split_nl c2))
                               - count_nl (takeWhile is_space (rev c2)),
                    chunk_type = ''paragraph'', name = None\<rparr>)]"
    using fallback_single_small [of c2 mx ov] count_nl_strip [of c2] by simp
  have 4: "c4 \<noteq> [] \<and> strip c4 = c4 \<and> \<not> has_nlnl c4 \<and> int (length (split_ws c4)) \<le> mx
      \<longrightarrow> fallback_chunk mx ov c4 =
            Some [(c4, \<lparr>start_line = 1, end_line = int (length (split_nl c4)),
                         chunk_type = ''paragraph'', name = None\<rparr>)]"
    using fallback_single_small [of c4 mx ov] by (auto simp: length_split_nl)
  have 5: "strip c3 \<noteq> [] \<and> \<not> has_nlnl c3 \<and> mx < int (length (split_ws (strip c3)))
      \<longrightarrow> map_option (map fst) (fallback_chunk mx ov c3)
            = map_option (map fst) (split_large_paragraph mx ov (strip c3) 1)"
    using fallback_single_large [of c3 mx ov] by simp
  have 6: "strip c3 \<noteq> [] \<and> \<not> has_nlnl c3 \<and> mx < int (length (split_ws (strip c3)))
        \<and> nl \<notin> set (takeWhile is_space c3)
      \<longrightarrow> fallback_chunk mx ov c3 = split_large_paragraph mx ov (strip c3) 1"
    using fallback_single_large [of c3 mx ov] by simp
  from 1 2 3 4 5 6 show ?thesis by (intro conjI)
qed

theorem fallback_chunk_single_paragraph_witness:
  "strip [CHR 0x20, nl, CHR 0x09] = [] \<and> fallback_chunk 500 50 [CHR 0x20, nl, CHR 0x09] = Some []
   \<and> strip ('' hello'' @ [nl] @ ''world '' @ [nl]) = ''hello'' @ [nl] @ ''world''
   \<and> \<not> has_nlnl ('' hello'' @ [nl] @ ''world '' @ [nl])
   \<and> int (length (split_ws (''hello'' @ [nl] @ ''world''))) \<le> 500
   \<and> nl \<notin> set (takeWhile is_space ('' hello'' @ [nl] @ ''world '' @ [nl]))
   \<and> fallback_chunk 500 50 ('' hello'' @ [nl] @ ''world '' @ [nl]) =
        Some [(''hello'' @ [nl] @ ''world'',
               \<lparr>start_line = 1, end_line = 2, chunk_type = ''paragraph'', name = None\<rparr>)]
   \<and> strip ''hello world'' = ''hello world''
   \<and> fallback_chunk 500 50 ''hello world'' =
        Some [(''hello world'', \<lparr>start_line = 1, end_line = 1,
                                   chunk_type = ''paragraph'', name = None\<rparr>)]
   \<and> strip ''a b c'' \<noteq> [] \<and> \<not> has_nlnl ''a b c'' \<and> 2 < int (length (split_ws (strip ''a b c'')))
   \<and> fallback_chunk 2 1 ''a b c'' = split_large_paragraph 2 1 ''a b c'' 1"
proof -
  let ?w = "'' hello'' @ [nl] @ ''world '' @ [nl]"
  have h1: "strip [CHR 0x20, nl, CHR 0x09] = []" by code_simp
  have h2: "strip ?w = ''hello'' @ [nl] @ ''world''" by code_simp
  have h3: "\<not> has_nlnl ?w" by code_simp
  have h4: "int (length (split_ws (''hello'' @ [nl] @ ''world''))) \<le> 500" by code_simp
  have h5: "nl \<notin> set (takeWhile is_space ?w)" by code_simp
  have h6: "int (length (split_nl ?w)) - count_nl (takeWhile is_space (rev ?w)) = 2"
    by code_simp
  have k1: "strip ''hello world'' = ''hello world''" by code_simp
  have k2: "\<not> has_nlnl ''hello world''" by code_simp
  have k3: "int (length (split_ws ''hello world'')) \<le> 500" by code_simp
  have k4: "int (length (split_nl ''hello world'')) = 1" by code_simp
  have g1: "strip ''a b c'' = ''a b c''" by code_simp
  have g2: "\<not> has_nlnl ''a b c''" by code_simp
  have g3: "2 < int (length (split_ws ''a b c''))" by code_simp
  have g4: "nl \<notin> set (takeWhile is_space ''a b c'')" by code_simp
  note inst1 = fallback_chunk_single_paragraph [where ?c1.0 = "[CHR 0x20, nl, CHR 0x09]"
      and mx = 500 and ov = 50 and ?c2.0 = ?w and ?c4.0 = "''hello world''"
      and ?c3.0 = "''a b c''"]
  note inst2 = fallback_chunk_single_paragraph [where ?c1.0 = "[CHR 0x20, nl, CHR 0x09]"
      and mx = 2 and ov = 1 and ?c2.0 = ?w and ?c4.0 = "''hello world''"
      and ?c3.0 = "''a b c''"]
  have r1: "fallback_chunk 500 50 [CHR 0x20, nl, CHR 0x09] = Some []"
    using inst1 h1 by (elim conjE) simp
  have r2: "fallback_chunk 500 50 ?w =
        Some [(''hello'' @ [nl] @ ''world'',
               \<lparr>start_line = 1, end_line = 2, chunk_type = ''paragraph'', name = None\<rparr>)]"
    using inst1 h2 h3 h4 h5 h6 by (elim conjE) simp
  have r3: "fallback_chunk 500 50 ''hello world'' =
        Some [(''hello world'', \<lparr>start_line = 1, end_line = 1,
                                   chunk_type = ''paragraph'', name = None\<rparr>)]"
    using inst1 k1 k2 k3 k4 by (elim conjE) simp
  have r4: "fallback_chunk 2 1 ''a b c'' = split_large_paragraph 2 1 ''a b c'' 1"
    using inst2 g1 g2 g3 g4 by (elim conjE) simp
  show ?thesis
    using h1 r1 h2 h3 h4 h5 r2 k1 r3 g1 g2 g3 r4 by simp
qed

text \<open>
  Claim C5, as stated, fails.  None of the four contents has a blank-line separator.
  The single paragraph \<open>hello world\<close> gives one chunk typed \<open>paragraph\<close>, not
  \<open>block\<close>.  The text of the chunk for \<open>hello world\<close> followed by a line break is
  the stripped paragraph, not the full input.  With \<open>max_chunk_size = 2\<close> the three
  words \<open>a b c\<close> give two chunks, not one.  And for \<open>hello\<close> after one line break
  the range is line 1 to line 1, where the file has two lines and the text is on the
  second.
\<close>

theorem fallback_chunk_block_counterexample:
  "\<not> has_nlnl ''hello world''
   \<and> fallback_chunk 500 50 ''hello world'' =
       Some [(''hello world'', \<lparr>start_line = 1, end_line = 1,
                                  chunk_type = ''paragraph'', name = None\<rparr>)]
   \<and> fallback_chunk 500 50 ''hello world'' \<noteq>
       Some [(''hello world'', \<lparr>start_line = 1, end_line = 1,
                                  chunk_type = ''block'', name = None\<rparr>)]
   \<and> \<not> has_nlnl (''hello world'' @ [nl])
   \<and> fallback_chunk 500 50 (''hello world'' @ [nl]) =
       Some [(''hello world'', \<lparr>start_line = 1, end_line = 1,
                                  chunk_type = ''paragraph'', name = None\<rparr>)]
   \<and> \<not> has_nlnl ''a b c''
   \<and> fallback_chunk 2 0 ''a b c'' =
       Some [(''a b'', \<lparr>start_line = 1, end_line = 1, chunk_type = ''paragraph'',
                          name = None\<rparr>),
             (''c'', \<lparr>start_line = 2, end_line = 2, chunk_type = ''paragraph'',
                        name = None\<rparr>)]
   \<and> \<not> has_nlnl (nl # ''hello'')
   \<and> split_nl (nl # ''hello'') = [[], ''hello'']
   \<and> fallback_chunk 500 50 (nl # ''hello'') =
       Some [(''hello'', \<lparr>start_line = 1, end_line = 1, chunk_type = ''paragraph'',
                            name = None\<rparr>)]"
  by code_simp

section \<open>Window splitting of a large paragraph\<close>

lemma split_ws_acc_nonspace:
  "\<forall>c\<in>set w. \<not> is_space c \<Longrightarrow> split_ws_acc cur (w @ rest) = split_ws_acc (rev w @ cur) rest"
proof (induction w arbitrary: cur)
  case Nil
  show ?case by simp
next
  case (Cons a w)
  from Cons.prems have a: "\<not> is_space a" and w: "\<forall>c\<in>set w. \<not> is_space c" by simp_all
  have "split_ws_acc cur ((a # w) @ rest) = split_ws_acc (a # cur) (w @ rest)"
    using a by simp
  also have "\<dots> = split_ws_acc (rev w @ a # cur) rest"
    using Cons.IH [OF w, of "a # cur"] .
  finally show ?case by simp
qed


lemma is_space_blank: "is_space CHR '' ''"
  by (simp add: is_space_def)

lemma split_ws_acc_one:
  assumes "w \<noteq> []" "\<forall>c\<in>set w. \<not> is_space c"
  shows "split_ws_acc [] w = [w]"
  using split_ws_acc_nonspace [OF assms(2), of "[]" "[]"] assms(1) by simp

lemma split_ws_acc_sep:
  assumes "w \<noteq> []" "\<forall>c\<in>set w. \<not> is_space c"
  shows "split_ws_acc [] (w @ CHR '' '' # rest) = w # split_ws_acc [] rest"
  using split_ws_acc_nonspace [OF assms(2), of "[]" "CHR '' '' # rest"] assms(1)
  by (simp add: is_space_blank)

lemma split_ws_join:
  "\<forall>w\<in>set ws. w \<noteq> [] \<and> (\<forall>c\<in>set w. \<not> is_space c) \<Longrightarrow> split_ws (join '' '' ws) = ws"
proof (induction ws)
  case Nil
  show ?case by (simp add: split_ws_def)
next
  case (Cons x xs)
  from Cons.prems have x: "x \<noteq> []" "\<forall>c\<in>set x. \<not> is_space c" by simp_all
  show ?case
  proof (cases xs)
    case Nil
    with x show ?thesis by (simp add: split_ws_def split_ws_acc_one)
  next
    case (Cons y ys)
    have "split_ws_acc [] (join '' '' xs) = xs"
      using Cons.IH Cons.prems by (simp add: split_ws_def)
    with Cons x show ?thesis by (simp add: split_ws_def split_ws_acc_sep)
  qed
qed

lemma split_ws_acc_words:
  "\<forall>c\<in>set cur. \<not> is_space c \<Longrightarrow> w \<in> set (split_ws_acc cur s) \<Longrightarrow>
   w \<noteq> [] \<and> (\<forall>c\<in>set w. \<not> is_space c)"
proof (induction s arbitrary: cur)
  case Nil
  then show ?case by (auto split: if_splits)
next
  case (Cons a s)
  show ?case
  proof (cases "is_space a")
    case True
    show ?thesis
    proof (cases "cur = []")
      case True
      with \<open>is_space a\<close> Cons.prems Cons.IH [of "[]"] show ?thesis by simp
    next
      case False
      with \<open>is_space a\<close> Cons.prems have "w = rev cur \<or> w \<in> set (split_ws_acc [] s)" by simp
      with False Cons.prems(1) Cons.IH [of "[]"] show ?thesis by auto
    qed
  next
    case False
    with Cons.prems Cons.IH [of "a # cur"] show ?thesis by simp
  qed
qed

lemma split_ws_words: "w \<in> set (split_ws s) \<Longrightarrow> w \<noteq> [] \<and> (\<forall>c\<in>set w. \<not> is_space c)"
  using split_ws_acc_words [of "[]" w s] by (simp add: split_ws_def)


lemma set_py_slice: "set (py_slice xs i j) \<subseteq> set xs"
proof -
  have "set (take n (drop m xs)) \<subseteq> set xs" for n m
    using set_take_subset [of n "drop m xs"] set_drop_subset [of m xs] by blast
  then show ?thesis by (simp add: py_slice_def Let_def)
qed

lemma py_slice_window:
  assumes "0 \<le> a" "0 \<le> m"
  shows "py_slice xs a (a + m) = take (nat m) (drop (nat a) xs)"
proof (cases "a \<le> int (length xs)")
  case True
  then have lo: "clip_index (int (length xs)) a = nat a"
    using assms by (simp add: clip_index_def min_def)
  have hi: "clip_index (int (length xs)) (a + m) = nat (min (a + m) (int (length xs)))"
    using assms by (simp add: clip_index_def)
  have "take (nat (min (a + m) (int (length xs))) - nat a) (drop (nat a) xs)
        = take (nat m) (drop (nat a) xs)"
  proof (cases "a + m \<le> int (length xs)")
    case True
    then have "nat (min (a + m) (int (length xs))) - nat a = nat m"
      using assms by (simp add: min_def nat_diff_distrib')
    then show ?thesis by simp
  next
    case False
    then have "nat (min (a + m) (int (length xs))) - nat a = length xs - nat a"
      using assms by (simp add: min_def)
    moreover have "length xs - nat a \<le> nat m" using False assms by linarith
    ultimately show ?thesis by simp
  qed
  with lo hi show ?thesis by (simp add: py_slice_def Let_def)
next
  case False
  then have "length xs \<le> nat a" by linarith
  moreover have "clip_index (int (length xs)) a = length xs"
    using False assms by (simp add: clip_index_def min_def)
  ultimately show ?thesis by (simp add: py_slice_def Let_def)
qed

lemma length_py_slice_window:
  assumes "0 \<le> a" "0 \<le> m"
  shows "int (length (py_slice xs a (a + m))) \<le> m"
  using assms by (simp add: py_slice_window)

lemma py_slice_nth:
  assumes "0 \<le> a" "a \<le> int j" "int j < a + m" "j < length xs"
  shows "j - nat a < length (py_slice xs a (a + m))
         \<and> py_slice xs a (a + m) ! (j - nat a) = xs ! j"
proof -
  have m: "0 \<le> m" using assms by linarith
  have 1: "j - nat a < nat m" using assms by linarith
  have 2: "nat a + (j - nat a) = j" using assms by linarith
  have 3: "j - nat a < length xs - nat a" using assms by linarith
  show ?thesis
    using assms m 1 2 3 by (simp add: py_slice_window)
qed


lemma split_loop_result:
  assumes step: "0 < mx - ov"
  shows "\<exists>res. split_loop mx ov words i line chunks = Some (chunks @ res)
           \<and> map fst res =
               map (\<lambda>k. join '' '' (py_slice words (i + int k * (mx - ov))
                                       (i + int k * (mx - ov) + mx)))
                 [0..<nat ((int (length words) - i + (mx - ov) - 1) div (mx - ov))]"
proof (induction "nat (int (length words) - i)" arbitrary: i line chunks rule: less_induct)
  case less
  let ?len = "int (length words)"
  let ?st = "mx - ov"
  let ?f = "\<lambda>i k. join '' '' (py_slice words (i + int k * ?st) (i + int k * ?st + mx))"
  show ?case
  proof (cases "i < ?len")
    case False
    then have "(?len - i + ?st - 1) div ?st \<le> (?st - 1) div ?st"
      using step by (intro zdiv_mono1) simp_all
    moreover have "(?st - 1) div ?st = 0"
      using step by (intro div_pos_pos_trivial) simp_all
    ultimately have "(?len - i + ?st - 1) div ?st \<le> 0" by simp
    with False show ?thesis
      by (subst split_loop.simps) simp
  next
    case True
    let ?txt = "join '' '' (py_slice words i (i + mx))"
    let ?lc = "count_nl ?txt + 1"
    let ?x = "(?txt, \<lparr>start_line = line, end_line = line + ?lc - 1,
                       chunk_type = ''paragraph'', name = None\<rparr>)"
    have unfold: "split_loop mx ov words i line chunks =
        split_loop mx ov words (i + ?st) (line + ?lc) (chunks @ [?x])"
      using True by (subst split_loop.simps) (simp add: Let_def)
    have "nat (?len - (i + ?st)) < nat (?len - i)" using True step by linarith
    from less [OF this, of "line + ?lc" "chunks @ [?x]"]
    obtain res where res: "split_loop mx ov words (i + ?st) (line + ?lc) (chunks @ [?x])
          = Some ((chunks @ [?x]) @ res)"
      and fsts: "map fst res = map (?f (i + ?st))
                   [0..<nat ((?len - (i + ?st) + ?st - 1) div ?st)]"
      by blast
    let ?n = "nat ((?len - (i + ?st) + ?st - 1) div ?st)"
    have "(?len - i + ?st - 1) div ?st = (?len - (i + ?st) + ?st - 1) div ?st + 1"
    proof -
      have "?len - i + ?st - 1 = (?len - (i + ?st) + ?st - 1) + ?st" by simp
      then show ?thesis using step by (metis div_add_self2 less_irrefl)
    qed
    moreover have "0 \<le> (?len - (i + ?st) + ?st - 1) div ?st"
      using True step by (simp add: pos_imp_zdiv_nonneg_iff)
    ultimately have cnt: "nat ((?len - i + ?st - 1) div ?st) = Suc ?n" by linarith
    have "map (?f i) [0..<Suc ?n] = ?f i 0 # map (\<lambda>k. ?f i (Suc k)) [0..<?n]"
      by (simp only: map_upt_Suc)
    also have "\<dots> = ?txt # map (?f (i + ?st)) [0..<?n]"
      by (simp add: algebra_simps)
    finally have "map (?f i) [0..<Suc ?n] = map fst (?x # res)"
      using fsts by simp
    with unfold res cnt show ?thesis
      by (intro exI [of _ "?x # res"]) simp
  qed
qed


lemma split_ws_window:
  "split_ws (join '' '' (py_slice (split_ws p) a b)) = py_slice (split_ws p) a b"
proof (rule split_ws_join)
  show "\<forall>w\<in>set (py_slice (split_ws p) a b). w \<noteq> [] \<and> (\<forall>c\<in>set w. \<not> is_space c)"
    using set_py_slice [of "split_ws p" a b] split_ws_words [of _ p] by blast
qed

text \<open>
  Claim C9, amended.  Under the precondition \<open>0 \<le> chunk_overlap < max_chunk_size\<close> the
  splitting loop of \<open>_split_large_paragraph\<close> terminates for every paragraph.  It
  advances its word index by \<open>max_chunk_size - chunk_overlap\<close> per step, so it produces
  \<open>\<lceil>len(words) / (max_chunk_size - chunk_overlap)\<rceil>\<close> windows, window \<open>k\<close> holding the words
  \<open>words[k * step : k * step + max_chunk_size]\<close>; each window has at most
  \<open>max_chunk_size\<close> words, and every word of the paragraph lies in some window.
\<close>

theorem split_large_paragraph_windows:
  assumes ov: "0 \<le> chunk_overlap" and lt: "chunk_overlap < max_chunk_size"
  shows "\<exists>chunks.
      split_large_paragraph max_chunk_size chunk_overlap paragraph start = Some chunks
    \<and> int (length chunks) =
        (int (length (split_ws paragraph)) + (max_chunk_size - chunk_overlap) - 1)
          div (max_chunk_size - chunk_overlap)
    \<and> (\<forall>k<length chunks.
          split_ws (fst (chunks ! k)) =
            py_slice (split_ws paragraph) (int k * (max_chunk_size - chunk_overlap))
              (int k * (max_chunk_size - chunk_overlap) + max_chunk_size))
    \<and> (\<forall>c\<in>set chunks. int (length (split_ws (fst c))) \<le> max_chunk_size)
    \<and> (\<forall>j<length (split_ws paragraph). \<exists>k<length chunks.
          int k * (max_chunk_size - chunk_overlap) \<le> int j
        \<and> int j < int k * (max_chunk_size - chunk_overlap) + max_chunk_size
        \<and> split_ws (fst (chunks ! k)) ! (j - k * nat (max_chunk_size - chunk_overlap))
            = split_ws paragraph ! j)"
proof -
  let ?mx = max_chunk_size
  let ?st = "max_chunk_size - chunk_overlap"
  let ?ws = "split_ws paragraph"
  let ?len = "int (length ?ws)"
  let ?n = "nat ((?len + ?st - 1) div ?st)"
  let ?win = "\<lambda>k. py_slice ?ws (int k * ?st) (int k * ?st + ?mx)"
  have step: "0 < ?st" using lt by simp
  have mx: "0 \<le> ?mx" "?st \<le> ?mx" using ov lt by simp_all
  from split_loop_result [OF step, of ?ws 0 start "[]"]
  obtain res where res: "split_large_paragraph ?mx chunk_overlap paragraph start = Some res"
    and fsts: "map fst res = map (\<lambda>k. join '' '' (?win k)) [0..<?n]"
    by (auto simp: split_large_paragraph_def)
  have len: "length res = ?n"
    using arg_cong [OF fsts, of length] by simp
  have nonneg: "0 \<le> (?len + ?st - 1) div ?st"
    using step by (simp add: pos_imp_zdiv_nonneg_iff)
  have nth: "fst (res ! k) = join '' '' (?win k)" if "k < length res" for k
  proof -
    have "fst (res ! k) = map fst res ! k" using that by simp
    also have "\<dots> = join '' '' (?win k)" using that len by (simp add: fsts)
    finally show ?thesis .
  qed
  have words: "split_ws (fst (res ! k)) = ?win k" if "k < length res" for k
    using nth [OF that] by (simp add: split_ws_window)
  have small: "int (length (split_ws (fst c))) \<le> ?mx" if "c \<in> set res" for c
  proof -
    from that obtain k where k: "k < length res" "c = res ! k"
      by (auto simp: in_set_conv_nth)
    have "int (length (?win k)) \<le> ?mx"
      using length_py_slice_window [of "int k * ?st" ?mx ?ws] step mx by simp
    with k words show ?thesis by simp
  qed
  have cover: "\<exists>k<length res. int k * ?st \<le> int j \<and> int j < int k * ?st + ?mx
        \<and> split_ws (fst (res ! k)) ! (j - k * nat ?st) = ?ws ! j"
    if j: "j < length ?ws" for j
  proof -
    let ?k = "j div nat ?st"
    have lo: "int ?k * ?st \<le> int j"
    proof -
      have "?k * nat ?st \<le> j" by simp
      then have "int (?k * nat ?st) \<le> int j" by (rule iffD2 [OF of_nat_le_iff])
      with step show ?thesis by simp
    qed
    have hi: "int j < int ?k * ?st + ?st"
    proof -
      have "j < ?k * nat ?st + nat ?st"
        using step dividend_less_div_times [of "nat ?st" j] by (simp add: algebra_simps)
      then have "int j < int (?k * nat ?st + nat ?st)" by (rule iffD2 [OF of_nat_less_iff])
      with step show ?thesis by simp
    qed
    have "int ?k * ?st + ?st \<le> ?len + ?st - 1" using lo j by linarith
    then have "(int ?k * ?st + ?st) div ?st \<le> (?len + ?st - 1) div ?st"
      using step by (intro zdiv_mono1) simp_all
    moreover have "(int ?k * ?st + ?st) div ?st = int ?k + 1"
      using step by simp
    ultimately have "?k < ?n" using nonneg by linarith
    then have k: "?k < length res" by (simp add: len)
    have "nat (int ?k * ?st) = ?k * nat ?st"
      using step by (simp add: nat_mult_distrib)
    with py_slice_nth [of "int ?k * ?st" j ?mx ?ws] lo hi mx j step
    have "?win ?k ! (j - ?k * nat ?st) = ?ws ! j" by simp
    with words [OF k] lo hi mx k show ?thesis
      by (intro exI [of _ ?k]) simp
  qed
  from res len nonneg words small cover show ?thesis
    by (intro exI [of _ res]) simp
qed

theorem split_large_paragraph_windows_witness:
  "(0::int) \<le> 1 \<and> (1::int) < 2
   \<and> (\<exists>chunks. split_large_paragraph 2 1 ''a b c'' 1 = Some chunks
        \<and> length chunks = 3
        \<and> split_ws (fst (chunks ! 2)) = [''c''])"
proof -
  have h1: "(0::int) \<le> 1" and h2: "(1::int) < 2" by simp_all
  have w: "split_ws ''a b c'' = [''a'', ''b'', ''c'']" by code_simp
  have sl: "py_slice [''a'', ''b'', ''c''] 2 4 = [''c'']" by code_simp
  from split_large_paragraph_windows [OF h1 h2, of "''a b c''" 1]
  obtain chunks where c: "split_large_paragraph 2 1 ''a b c'' 1 = Some chunks"
    and n: "int (length chunks) = (int (length (split_ws ''a b c'')) + (2 - 1) - 1) div (2 - 1)"
    and ws: "\<forall>k<length chunks. split_ws (fst (chunks ! k)) =
               py_slice (split_ws ''a b c'') (int k * (2 - 1)) (int k * (2 - 1) + 2)"
    by blast
  from n have n3: "length chunks = 3" by (simp add: w)
  with ws have "split_ws (fst (chunks ! 2)) = py_slice (split_ws ''a b c'') 2 4" by simp
  with c n3 show ?thesis by (simp add: w sl)
qed

text \<open>
  Claim C9, as stated with the only precondition \<open>chunk_overlap < max_chunk_size\<close>, fails
  for a negative overlap: with \<open>max_chunk_size = 2\<close> and \<open>chunk_overlap = -1\<close> the index
  advances by 3, so the three-word paragraph \<open>a b c\<close> gives the single window \<open>a b\<close> and
  the word \<open>c\<close> is in no window.
\<close>

theorem split_large_paragraph_cover_counterexample:
  "(- 1 :: int) < 2
   \<and> split_ws ''a b c'' = [''a'', ''b'', ''c'']
   \<and> split_large_paragraph 2 (- 1) ''a b c'' 1 =
       Some [(''a b'', \<lparr>start_line = 1, end_line = 1,
                         chunk_type = ''paragraph'', name = None\<rparr>)]
   \<and> split_ws ''a b'' = [''a'', ''b'']"
  by code_simp

section \<open>De-duplication of search results\<close>

lemma overlaps_iff:
  "overlaps thr r kept \<longleftrightarrow> (\<exists>k\<in>set kept. overlap_of r k \<ge> thr)"
  by (induction kept) auto

lemma by_file_add_new:
  "path (chunk r) \<notin> set ps \<Longrightarrow>
   by_file_add (map (\<lambda>p. (p, g p)) ps) r = map (\<lambda>p. (p, g p)) ps @ [(path (chunk r), [r])]"
  by (induction ps) auto

lemma by_file_add_old:
  "distinct ps \<Longrightarrow> path (chunk r) \<in> set ps \<Longrightarrow>
   by_file_add (map (\<lambda>p. (p, g p)) ps) r =
     map (\<lambda>p. (p, if p = path (chunk r) then g p @ [r] else g p)) ps"
proof (induction ps)
  case Nil
  then show ?case by simp
next
  case (Cons q ps)
  show ?case
  proof (cases "q = path (chunk r)")
    case True
    with Cons.prems have "path (chunk r) \<notin> set ps" by simp
    then have "map (\<lambda>p. (p, if p = path (chunk r) then g p @ [r] else g p)) ps
             = map (\<lambda>p. (p, g p)) ps"
      by (intro map_cong) auto
    with True show ?thesis by simp
  next
    case False
    with Cons show ?thesis by simp
  qed
qed

lemma paths_of_snoc:
  "paths_of (rs @ [r]) =
     (if path (chunk r) \<in> set (paths_of rs) then paths_of rs else paths_of rs @ [path (chunk r)])"
  by (simp add: paths_of_def)

lemma distinct_paths_of: "distinct (paths_of rs)"
  by (simp add: paths_of_def)

lemma set_paths_of: "set (paths_of rs) = (\<lambda>r. path (chunk r)) ` set rs"
  by (simp add: paths_of_def)

lemma group_by_file_eq:
  "group_by_file rs =
     map (\<lambda>p. (p, filter (\<lambda>r. path (chunk r) = p) rs)) (paths_of rs)"
proof (induction rs rule: rev_induct)
  case Nil
  show ?case by (simp add: group_by_file_def paths_of_def)
next
  case (snoc r rs)
  let ?g = "\<lambda>p. filter (\<lambda>r. path (chunk r) = p) rs"
  have step: "group_by_file (rs @ [r]) = by_file_add (map (\<lambda>p. (p, ?g p)) (paths_of rs)) r"
    using snoc by (simp add: group_by_file_def)
  show ?case
  proof (cases "path (chunk r) \<in> set (paths_of rs)")
    case True
    have "by_file_add (map (\<lambda>p. (p, ?g p)) (paths_of rs)) r =
        map (\<lambda>p. (p, if p = path (chunk r) then ?g p @ [r] else ?g p)) (paths_of rs)"
      using by_file_add_old [OF distinct_paths_of True] .
    also have "\<dots> = map (\<lambda>p. (p, filter (\<lambda>x. path (chunk x) = p) (rs @ [r]))) (paths_of rs)"
      by (intro map_cong) auto
    finally show ?thesis using True step by (simp add: paths_of_snoc)
  next
    case False
    then have nin: "\<forall>x\<in>set rs. path (chunk x) \<noteq> path (chunk r)"
      unfolding set_paths_of by (metis imageI)
    have e1: "filter (\<lambda>x. path (chunk x) = path (chunk r)) (rs @ [r]) = [r]"
      using nin by (simp add: filter_empty_conv)
    have e2: "map (\<lambda>p. (p, filter (\<lambda>x. path (chunk x) = p) (rs @ [r]))) (paths_of rs)
            = map (\<lambda>p. (p, ?g p)) (paths_of rs)"
      using False by (intro map_cong) auto
    have "group_by_file (rs @ [r]) =
        map (\<lambda>p. (p, ?g p)) (paths_of rs) @ [(path (chunk r), [r])]"
      unfolding step using by_file_add_new [OF False] .
    also have "\<dots> = map (\<lambda>p. (p, filter (\<lambda>x. path (chunk x) = p) (rs @ [r])))
                       (paths_of rs @ [path (chunk r)])"
      unfolding map_append e2 [symmetric] using e1 by simp
    finally show ?thesis using False by (simp only: paths_of_snoc if_False)
  qed
qed


lemma deduplicate_structure:
  "deduplicate rs thr =
     sort_by_score
       (concat (map (\<lambda>p. keep_loop thr
                             (sort_by_score (filter (\<lambda>r. path (chunk r) = p) rs)) [])
                  (paths_of rs)))"
proof (cases "rs = []")
  case True
  then show ?thesis by (simp add: deduplicate_def paths_of_def sort_by_score_def)
next
  case False
  then show ?thesis
    by (simp add: deduplicate_def group_by_file_eq comp_def)
qed

lemma keep_loop_mono: "set kept \<subseteq> set (keep_loop thr xs kept)"
proof (induction xs arbitrary: kept)
  case Nil
  show ?case by simp
next
  case (Cons y ys)
  show ?case
    using Cons.IH [of kept] Cons.IH [of "kept @ [y]"] by (cases "overlaps thr y kept") auto
qed

lemma keep_loop_subset: "set (keep_loop thr xs kept) \<subseteq> set xs \<union> set kept"
proof (induction xs arbitrary: kept)
  case Nil
  show ?case by simp
next
  case (Cons y ys)
  show ?case
    using Cons.IH [of kept] Cons.IH [of "kept @ [y]"] by (cases "overlaps thr y kept") auto
qed

lemma keep_loop_dropped:
  "x \<in> set xs \<Longrightarrow>
   x \<in> set (keep_loop thr xs kept) \<or> (\<exists>k\<in>set (keep_loop thr xs kept). thr \<le> overlap_of x k)"
proof (induction xs arbitrary: kept)
  case Nil
  then show ?case by simp
next
  case (Cons y ys)
  show ?case
  proof (cases "x = y")
    case True
    show ?thesis
    proof (cases "overlaps thr y kept")
      case ov: True
      then obtain k where "k \<in> set kept" "thr \<le> overlap_of y k"
        by (auto simp: overlaps_iff)
      moreover have "set kept \<subseteq> set (keep_loop thr ys kept)" by (rule keep_loop_mono)
      ultimately show ?thesis using True ov by auto
    next
      case nov: False
      have "set (kept @ [y]) \<subseteq> set (keep_loop thr ys (kept @ [y]))" by (rule keep_loop_mono)
      with True nov show ?thesis by simp
    qed
  next
    case False
    with Cons.prems have "x \<in> set ys" by simp
    from Cons.IH [OF this] show ?thesis by simp
  qed
qed


lemma set_sort_by_score: "set (sort_by_score xs) = set xs"
  by (simp add: sort_by_score_def)

lemma filter_sort_by_score: "filter P (sort_by_score xs) = sort_by_score (filter P xs)"
  by (simp add: sort_by_score_def filter_sort)

lemma concat_single:
  "distinct ps \<Longrightarrow>
   concat (map (\<lambda>q. if q = p then X else []) ps) = (if p \<in> set ps then X else [])"
  by (induction ps) auto

lemma group_paths:
  assumes "x \<in> set (keep_loop thr (sort_by_score (filter (\<lambda>r. path (chunk r) = q) rs)) [])"
  shows "path (chunk x) = q"
proof -
  have "x \<in> set (sort_by_score (filter (\<lambda>r. path (chunk r) = q) rs))"
    using assms keep_loop_subset [of thr "sort_by_score (filter (\<lambda>r. path (chunk r) = q) rs)" "[]"]
    by auto
  then show ?thesis by (simp add: set_sort_by_score)
qed

lemma filter_group:
  "filter (\<lambda>r. path (chunk r) = p)
     (keep_loop thr (sort_by_score (filter (\<lambda>r. path (chunk r) = q) rs)) [])
   = (if q = p then keep_loop thr (sort_by_score (filter (\<lambda>r. path (chunk r) = p) rs)) []
      else [])"
proof (cases "q = p")
  case True
  have "\<forall>x\<in>set (keep_loop thr (sort_by_score (filter (\<lambda>r. path (chunk r) = p) rs)) []).
          path (chunk x) = p"
    using group_paths by blast
  then have "filter (\<lambda>r. path (chunk r) = p)
     (keep_loop thr (sort_by_score (filter (\<lambda>r. path (chunk r) = p) rs)) [])
     = keep_loop thr (sort_by_score (filter (\<lambda>r. path (chunk r) = p) rs)) []"
    by (rule iffD2 [OF filter_id_conv])
  with True show ?thesis by simp
next
  case False
  have "\<forall>x\<in>set (keep_loop thr (sort_by_score (filter (\<lambda>r. path (chunk r) = q) rs)) []).
          \<not> path (chunk x) = p"
    using group_paths False by blast
  then have "filter (\<lambda>r. path (chunk r) = p)
     (keep_loop thr (sort_by_score (filter (\<lambda>r. path (chunk r) = q) rs)) []) = []"
    by (rule iffD2 [OF filter_empty_conv])
  with False show ?thesis by simp
qed


lemma filter_deduplicate:
  "filter (\<lambda>r. path (chunk r) = p) (deduplicate rs thr) =
     sort_by_score (keep_loop thr (sort_by_score (filter (\<lambda>r. path (chunk r) = p) rs)) [])"
proof -
  let ?G = "\<lambda>q. keep_loop thr (sort_by_score (filter (\<lambda>r. path (chunk r) = q) rs)) []"
  have "filter (\<lambda>r. path (chunk r) = p) (concat (map ?G (paths_of rs)))
        = concat (map (\<lambda>q. filter (\<lambda>r. path (chunk r) = p) (?G q)) (paths_of rs))"
    by (simp only: filter_concat map_map comp_def)
  also have "\<dots> = concat (map (\<lambda>q. if q = p then ?G p else []) (paths_of rs))"
    by (simp only: filter_group)
  also have "\<dots> = (if p \<in> set (paths_of rs) then ?G p else [])"
    by (rule concat_single [OF distinct_paths_of])
  also have "\<dots> = ?G p"
  proof (cases "p \<in> set (paths_of rs)")
    case True
    then show ?thesis by simp
  next
    case False
    then have "\<forall>x\<in>set rs. \<not> path (chunk x) = p"
      unfolding set_paths_of by (metis imageI)
    then have "filter (\<lambda>r. path (chunk r) = p) rs = []"
      by (rule iffD2 [OF filter_empty_conv])
    with False show ?thesis by (simp add: sort_by_score_def)
  qed
  finally have "filter (\<lambda>r. path (chunk r) = p) (concat (map ?G (paths_of rs))) = ?G p" .
  then show ?thesis
    by (simp only: deduplicate_structure [of rs thr] filter_sort_by_score)
qed

lemma paths_of_same:
  "\<forall>x\<in>set fs. path (chunk x) = p \<Longrightarrow> paths_of fs = (if fs = [] then [] else [p])"
proof (induction fs rule: rev_induct)
  case Nil
  show ?case by (simp add: paths_of_def)
next
  case (snoc r rs)
  then have ih: "paths_of rs = (if rs = [] then [] else [p])" and r: "path (chunk r) = p"
    by simp_all
  show ?case unfolding paths_of_snoc ih r by simp
qed

lemma paths_of_single:
  assumes "fs \<noteq> []" "\<forall>x\<in>set fs. path (chunk x) = p"
  shows "paths_of fs = [p]"
  using paths_of_same [OF assms(2)] assms(1) by simp

lemma deduplicate_same_path:
  assumes "\<forall>x\<in>set fs. path (chunk x) = p"
  shows "deduplicate fs thr = sort_by_score (keep_loop thr (sort_by_score fs) [])"
proof (cases "fs = []")
  case True
  then show ?thesis by (simp add: deduplicate_def sort_by_score_def)
next
  case False
  have "filter (\<lambda>r. path (chunk r) = p) fs = fs"
    using assms by (rule iffD2 [OF filter_id_conv])
  then show ?thesis
    by (simp add: deduplicate_structure [of fs thr] paths_of_single [OF False assms])
qed

lemma deduplicate_per_path:
  "filter (\<lambda>r. path (chunk r) = p) (deduplicate rs thr) =
     deduplicate (filter (\<lambda>r. path (chunk r) = p) rs) thr"
  using deduplicate_same_path [of "filter (\<lambda>r. path (chunk r) = p) rs" p thr]
  by (simp add: filter_deduplicate)

lemma deduplicate_sorted: "sorted (map (\<lambda>r. - score r) (deduplicate rs thr))"
  by (simp add: deduplicate_structure [of rs thr] sort_by_score_def)

lemma deduplicate_subset: "set (deduplicate rs thr) \<subseteq> set rs"
proof
  fix x assume x: "x \<in> set (deduplicate rs thr)"
  then have "x \<in> set (filter (\<lambda>r. path (chunk r) = path (chunk x)) (deduplicate rs thr))"
    by simp
  then have "x \<in> set (keep_loop thr
      (sort_by_score (filter (\<lambda>r. path (chunk r) = path (chunk x)) rs)) [])"
    by (simp only: filter_deduplicate set_sort_by_score)
  then have "x \<in> set (sort_by_score (filter (\<lambda>r. path (chunk r) = path (chunk x)) rs))"
    using keep_loop_subset by fastforce
  then show "x \<in> set rs" by (simp add: set_sort_by_score)
qed

lemma deduplicate_dropped:
  assumes "x \<in> set rs"
  shows "x \<in> set (deduplicate rs thr)
     \<or> (\<exists>k\<in>set (deduplicate rs thr). path (chunk k) = path (chunk x) \<and> thr \<le> overlap_of x k)"
proof -
  let ?p = "path (chunk x)"
  let ?fs = "sort_by_score (filter (\<lambda>r. path (chunk r) = ?p) rs)"
  have eq: "set (keep_loop thr ?fs []) =
      set (filter (\<lambda>r. path (chunk r) = ?p) (deduplicate rs thr))"
    by (simp only: filter_deduplicate set_sort_by_score)
  have "x \<in> set ?fs" using assms by (simp add: set_sort_by_score)
  from keep_loop_dropped [OF this, of thr "[]"]
  show ?thesis unfolding eq by auto
qed


lemma calculate_overlap_sym: "calculate_overlap s1 e1 s2 e2 = calculate_overlap s2 e2 s1 e1"
  by (simp add: calculate_overlap_def Let_def max.commute min.commute)

lemma calculate_overlap_disjoint:
  "e1 < s2 \<or> e2 < s1 \<Longrightarrow> calculate_overlap s1 e1 s2 e2 = 0"
  by (auto simp: calculate_overlap_def Let_def)

lemma calculate_overlap_inside:
  assumes "s1 \<le> e1" "s2 \<le> s1" "e1 \<le> e2"
  shows "calculate_overlap s1 e1 s2 e2 = 1"
  using assms by (simp add: calculate_overlap_def Let_def max_def min_def)

lemma calculate_overlap_formula:
  assumes "s1 \<le> e1" "s2 \<le> e2" "max s1 s2 \<le> min e1 e2"
  shows "calculate_overlap s1 e1 s2 e2 =
     real_of_int (min e1 e2 - max s1 s2 + 1) / real_of_int (min (e1 - s1 + 1) (e2 - s2 + 1))"
proof -
  have "\<not> max s1 s2 > min e1 e2" using assms(3) by (rule leD)
  moreover have "min (e1 - s1 + 1) (e2 - s2 + 1) > 0" using assms(1,2) by simp
  ultimately show ?thesis by (simp only: calculate_overlap_def Let_def if_True if_False)
qed

lemma sort_by_score_two:
  "sort_by_score [a, b] = (if score b \<le> score a then [a, b] else [b, a])"
  by (simp add: sort_by_score_def)

lemma deduplicate_collapse:
  assumes p: "path (chunk r1) = path (chunk r2)" and ov: "thr \<le> overlap_of r1 r2"
  shows "deduplicate [r1, r2] thr = [if score r2 \<le> score r1 then r1 else r2]"
proof -
  have ov': "thr \<le> overlap_of r2 r1"
    using ov calculate_overlap_sym [of "start_line (chunk r1)"] by simp
  have "deduplicate [r1, r2] thr = sort_by_score (keep_loop thr (sort_by_score [r1, r2]) [])"
    using deduplicate_same_path [of "[r1, r2]" "path (chunk r2)" thr] p by simp
  then show ?thesis
    using ov ov' by (simp add: sort_by_score_two) (simp add: sort_by_score_def)
qed

lemma deduplicate_two_paths:
  assumes "path (chunk r1) \<noteq> path (chunk r2)"
  shows "deduplicate [r1, r2] thr = sort_by_score [r1, r2]"
  using assms by (simp add: deduplicate_def group_by_file_def sort_by_score_def)

lemma deduplicate_descending:
  "sorted_wrt (\<lambda>a b. score b \<le> score a) (deduplicate rs thr)"
  using deduplicate_sorted [of rs thr] by (simp add: sorted_map)


text \<open>
  Claim C4.  \<open>deduplicate\<close> groups the results by file path (the paths in order of first
  occurrence), sorts each group by descending score and runs the greedy loop on it, in
  which a result is kept if and only if its overlap with every result kept so far is
  below the threshold; the kept results of all groups are sorted by descending score.
  The overlap of two well-formed ranges that intersect is the length of the intersection
  divided by the length of the smaller range; it is 0 for disjoint ranges and 1 when one
  range lies inside the other.  Two results of one path whose overlap reaches the
  threshold collapse to the higher-scoring one (the first of the two on a tie); two
  results of different paths are both kept.  In general the results of one path in the
  output depend on the results of that path in the input only, every result of the
  output is a result of the input, every dropped result overlaps a kept result of its
  own path, and the output is sorted by descending score.
\<close>

theorem deduplicate_per_file_greedy:
  "deduplicate rs thr =
     sort_by_score
       (concat (map (\<lambda>p. keep_loop thr
                             (sort_by_score (filter (\<lambda>r. path (chunk r) = p) rs)) [])
                  (paths_of rs)))
   \<and> keep_loop thr (r # rest) kept =
       keep_loop thr rest (if (\<forall>k\<in>set kept. overlap_of r k < thr) then kept @ [r] else kept)
   \<and> (s1 \<le> e1 \<and> s2 \<le> e2 \<and> max s1 s2 \<le> min e1 e2 \<longrightarrow>
        calculate_overlap s1 e1 s2 e2 =
          real_of_int (min e1 e2 - max s1 s2 + 1) / real_of_int (min (e1 - s1 + 1) (e2 - s2 + 1)))
   \<and> (e3 < s4 \<or> e4 < s3 \<longrightarrow> calculate_overlap s3 e3 s4 e4 = 0)
   \<and> (s5 \<le> e5 \<and> s6 \<le> s5 \<and> e5 \<le> e6 \<longrightarrow>
        calculate_overlap s5 e5 s6 e6 = 1 \<and> calculate_overlap s6 e6 s5 e5 = 1)
   \<and> (path (chunk r1) = path (chunk r2) \<and> thr \<le> overlap_of r1 r2 \<longrightarrow>
        deduplicate [r1, r2] thr = [if score r2 \<le> score r1 then r1 else r2])
   \<and> (path (chunk r3) \<noteq> path (chunk r4) \<longrightarrow>
        deduplicate [r3, r4] thr = sort_by_score [r3, r4])
   \<and> filter (\<lambda>r. path (chunk r) = p) (deduplicate rs thr) =
       deduplicate (filter (\<lambda>r. path (chunk r) = p) rs) thr
   \<and> set (deduplicate rs thr) \<subseteq> set rs
   \<and> (x \<in> set rs \<longrightarrow>
        x \<in> set (deduplicate rs thr)
        \<or> (\<exists>k\<in>set (deduplicate rs thr).
              path (chunk k) = path (chunk x) \<and> thr \<le> overlap_of x k))
   \<and> sorted_wrt (\<lambda>a b. score b \<le> score a) (deduplicate rs thr)"
proof -
  have keep: "keep_loop thr (r # rest) kept =
       keep_loop thr rest (if (\<forall>k\<in>set kept. overlap_of r k < thr) then kept @ [r] else kept)"
    by (simp add: overlaps_iff not_le)
  have inside: "s5 \<le> e5 \<and> s6 \<le> s5 \<and> e5 \<le> e6 \<longrightarrow>
        calculate_overlap s5 e5 s6 e6 = 1 \<and> calculate_overlap s6 e6 s5 e5 = 1"
    using calculate_overlap_inside [of s5 e5 s6 e6] calculate_overlap_sym [of s6 e6 s5 e5]
    by simp
  show ?thesis
    using deduplicate_structure [of rs thr] keep calculate_overlap_formula [of s1 e1 s2 e2]
      calculate_overlap_disjoint [of e3 s4 e4 s3] inside
      deduplicate_collapse [of r1 r2 thr] deduplicate_two_paths [of r3 r4 thr]
      deduplicate_per_path [of p rs thr] deduplicate_subset [of rs thr]
      deduplicate_dropped [of x rs thr] deduplicate_descending [of rs thr]
    by blast
qed

theorem deduplicate_per_file_greedy_witness:
  "(1::int) \<le> 10 \<and> (5::int) \<le> 15 \<and> max (1::int) 5 \<le> min 10 15
   \<and> calculate_overlap 1 10 5 15 = 3 / 5
   \<and> (5::int) < 10 \<and> calculate_overlap 1 5 10 15 = 0
   \<and> (5::int) \<le> 10 \<and> (1::int) \<le> 5 \<and> (10::int) \<le> 20
   \<and> calculate_overlap 5 10 1 20 = 1 \<and> calculate_overlap 1 20 5 10 = 1
   \<and> path (chunk (sample_result ''a.py'' 5 15 (4 / 5))) =
       path (chunk (sample_result ''a.py'' 1 10 (9 / 10)))
   \<and> 1 / 2 \<le> overlap_of (sample_result ''a.py'' 5 15 (4 / 5))
                           (sample_result ''a.py'' 1 10 (9 / 10))
   \<and> deduplicate [sample_result ''a.py'' 5 15 (4 / 5), sample_result ''a.py'' 1 10 (9 / 10)]
         (1 / 2) = [sample_result ''a.py'' 1 10 (9 / 10)]
   \<and> path (chunk (sample_result ''b.py'' 5 15 (4 / 5))) \<noteq>
       path (chunk (sample_result ''a.py'' 1 10 (9 / 10)))
   \<and> deduplicate [sample_result ''b.py'' 5 15 (4 / 5), sample_result ''a.py'' 1 10 (9 / 10)]
         (1 / 2) =
       [sample_result ''a.py'' 1 10 (9 / 10), sample_result ''b.py'' 5 15 (4 / 5)]
   \<and> sample_result ''a.py'' 5 15 (4 / 5)
         \<in> set [sample_result ''a.py'' 5 15 (4 / 5), sample_result ''a.py'' 1 10 (9 / 10)]"
proof -
  let ?a = "sample_result ''a.py'' 1 10 (9 / 10)"
  let ?b = "sample_result ''a.py'' 5 15 (4 / 5)"
  let ?c = "sample_result ''b.py'' 5 15 (4 / 5)"
  have ov: "overlap_of ?b ?a = 3 / 5"
    by (simp add: sample_result_def calculate_overlap_def)
  have sc: "score ?a = 9 / 10" "score ?b = 4 / 5" "score ?c = 4 / 5"
    by (simp_all add: sample_result_def)
  have pa: "path (chunk ?a) = ''a.py''" "path (chunk ?b) = ''a.py''" "path (chunk ?c) = ''b.py''"
    by (simp_all add: sample_result_def)
  have o1: "calculate_overlap 1 10 5 15 = 3 / 5" by (simp add: calculate_overlap_def)
  have srt: "sort_by_score [?c, ?a] = [?a, ?c]"
    by (simp add: sort_by_score_def sc)
  have o2: "overlap_of ?b ?a = calculate_overlap 5 15 1 10"
    by (simp add: sample_result_def)
  have o3: "calculate_overlap 5 15 1 10 = 3 / 5" by (simp add: calculate_overlap_def)
  note inst = deduplicate_per_file_greedy [where rs = "[?b, ?a]" and thr = "1 / 2"
      and ?s1.0 = 1 and ?e1.0 = 10 and ?s2.0 = 5 and ?e2.0 = 15
      and ?s3.0 = 1 and ?e3.0 = 5 and ?s4.0 = 10 and ?e4.0 = 15
      and ?s5.0 = 5 and ?e5.0 = 10 and ?s6.0 = 1 and ?e6.0 = 20
      and ?r1.0 = ?b and ?r2.0 = ?a and ?r3.0 = ?c and ?r4.0 = ?a and x = ?b]
  have i1: "(5::int) < 10 \<or> (15::int) < 1 \<longrightarrow> calculate_overlap 1 5 10 15 = 0"
    using inst by blast
  have i2: "(5::int) \<le> 10 \<and> (1::int) \<le> 5 \<and> (10::int) \<le> 20 \<longrightarrow>
      calculate_overlap 5 10 1 20 = 1 \<and> calculate_overlap 1 20 5 10 = 1"
    using inst by blast
  have i3: "path (chunk ?b) = path (chunk ?a) \<and> 1 / 2 \<le> overlap_of ?b ?a \<longrightarrow>
      deduplicate [?b, ?a] (1 / 2) = [if score ?a \<le> score ?b then ?b else ?a]"
    using inst by blast
  have i4: "path (chunk ?c) \<noteq> path (chunk ?a) \<longrightarrow>
      deduplicate [?c, ?a] (1 / 2) = sort_by_score [?c, ?a]"
    using inst by blast
  have c1: "calculate_overlap 1 5 10 15 = 0" using i1 by simp
  have c2: "calculate_overlap 5 10 1 20 = 1 \<and> calculate_overlap 1 20 5 10 = 1"
    using i2 by simp
  have h3: "1 / 2 \<le> overlap_of ?b ?a" unfolding ov by simp
  have c3: "deduplicate [?b, ?a] (1 / 2) = [?a]"
    using i3 h3 by (simp add: pa sc)
  have c4: "deduplicate [?c, ?a] (1 / 2) = [?a, ?c]"
    using i4 by (simp add: pa srt)
  show ?thesis
    using c1 c2 c3 c4 o1 h3 by (simp add: pa)
qed

section \<open>Context expansion\<close>

lemma expand_result_frame:
  "path (chunk (expand_result f lb la r)) = path (chunk r)
   \<and> language (chunk (expand_result f lb la r)) = language (chunk r)
   \<and> chunk_type (chunk (expand_result f lb la r)) = chunk_type (chunk r)
   \<and> name (chunk (expand_result f lb la r)) = name (chunk r)
   \<and> vector (chunk (expand_result f lb la r)) = vector (chunk r)
   \<and> file_hash (chunk (expand_result f lb la r)) = file_hash (chunk r)
   \<and> indexed_at (chunk (expand_result f lb la r)) = indexed_at (chunk r)
   \<and> branch (chunk (expand_result f lb la r)) = branch (chunk r)
   \<and> score (expand_result f lb la r) = score r"
  by (simp add: expand_result_def new_CodeChunk_def new_SearchResult_def Let_def
      split: file_state.splits)

lemma expand_result_missing:
  "f (path (chunk r)) = Missing \<or> f (path (chunk r)) = Unreadable \<Longrightarrow>
   expand_result f lb la r = r"
  by (auto simp: expand_result_def)

lemma expand_result_readable:
  assumes v: "SearchResult_valid r" and rd: "f (path (chunk r)) = Readable content"
    and ge: "1 \<le> min (int (length (readlines content))) (end_line (chunk r) + la)"
  shows "start_line (chunk (expand_result f lb la r)) = max 1 (start_line (chunk r) - lb)
   \<and> end_line (chunk (expand_result f lb la r)) =
       min (int (length (readlines content))) (end_line (chunk r) + la)
   \<and> chunk_text (chunk (expand_result f lb la r)) =
       concat (py_slice (readlines content) (max 1 (start_line (chunk r) - lb) - 1)
                 (min (int (length (readlines content))) (end_line (chunk r) + la)))"
  using v ge
  by (simp add: expand_result_def rd new_CodeChunk_def new_SearchResult_def Let_def
      SearchResult_valid_def CodeChunk_valid_def)

lemma expand_context_nth:
  "i < length results \<Longrightarrow>
   expand_context file_at results lb la (Some rt) ! i = expand_result (file_at rt) lb la (results ! i)"
  by (auto simp: expand_context_def)

lemma expand_context_length:
  "length (expand_context file_at results lb la project_root) = length results"
  by (simp add: expand_context_def split: option.splits)


lemma expand_result_empty_range:
  assumes rd: "f (path (chunk r)) = Readable content"
    and lt: "min (int (length (readlines content))) (end_line (chunk r) + la) < 1"
  shows "expand_result f lb la r = r"
  using lt
  by (auto simp: expand_result_def rd new_CodeChunk_def Let_def CodeChunk_valid_def)

text \<open>
  Claim C8, amended.  \<open>expand_context\<close> returns exactly one result per input result, and
  the input unchanged when no project root is supplied.  In every result the path,
  language, chunk type, name, vector, file hash, indexing time, branch and the score are
  those of the input.  For a (validated) result whose source file exists and is
  readable and for which the clamped end line \<open>min(file_line_count, end_line + after)\<close>
  is at least 1, the range becomes \<open>max(1, start_line - before)\<close> to that end line and
  the text becomes the lines of that range.  If the file is missing or unreadable, or
  the clamped end line is below 1 (an empty file), the original result is returned
  unmodified.
\<close>

theorem expand_context_frame:
  "length (expand_context file_at results lb la project_root) = length results
   \<and> expand_context file_at results lb la None = results
   \<and> (i < length results \<longrightarrow>
        path (chunk (expand_context file_at results lb la project_root ! i))
           = path (chunk (results ! i))
      \<and> language (chunk (expand_context file_at results lb la project_root ! i))
           = language (chunk (results ! i))
      \<and> chunk_type (chunk (expand_context file_at results lb la project_root ! i))
           = chunk_type (chunk (results ! i))
      \<and> name (chunk (expand_context file_at results lb la project_root ! i))
           = name (chunk (results ! i))
      \<and> vector (chunk (expand_context file_at results lb la project_root ! i))
           = vector (chunk (results ! i))
      \<and> file_hash (chunk (expand_context file_at results lb la project_root ! i))
           = file_hash (chunk (results ! i))
      \<and> indexed_at (chunk (expand_context file_at results lb la project_root ! i))
           = indexed_at (chunk (results ! i))
      \<and> branch (chunk (expand_context file_at results lb la project_root ! i))
           = branch (chunk (results ! i))
      \<and> score (expand_context file_at results lb la project_root ! i) = score (results ! i))
   \<and> (i < length results \<and> SearchResult_valid (results ! i)
        \<and> file_at rt (path (chunk (results ! i))) = Readable content
        \<and> 1 \<le> min (int (length (readlines content))) (end_line (chunk (results ! i)) + la)
      \<longrightarrow>
        start_line (chunk (expand_context file_at results lb la (Some rt) ! i))
           = max 1 (start_line (chunk (results ! i)) - lb)
      \<and> end_line (chunk (expand_context file_at results lb la (Some rt) ! i))
           = min (int (length (readlines content))) (end_line (chunk (results ! i)) + la)
      \<and> chunk_text (chunk (expand_context file_at results lb la (Some rt) ! i))
           = concat (py_slice (readlines content)
                       (max 1 (start_line (chunk (results ! i)) - lb) - 1)
                       (min (int (length (readlines content)))
                            (end_line (chunk (results ! i)) + la))))
   \<and> (i < length results
        \<and> (file_at rt (path (chunk (results ! i))) = Missing
           \<or> file_at rt (path (chunk (results ! i))) = Unreadable
           \<or> (file_at rt (path (chunk (results ! i))) = Readable content
              \<and> min (int (length (readlines content)))
                     (end_line (chunk (results ! i)) + la) < 1))
      \<longrightarrow> expand_context file_at results lb la (Some rt) ! i = results ! i)"
proof -
  have none: "expand_context file_at results lb la None = results"
    by (simp add: expand_context_def)
  have frame: "i < length results \<Longrightarrow>
      path (chunk (expand_context file_at results lb la project_root ! i))
           = path (chunk (results ! i))
      \<and> language (chunk (expand_context file_at results lb la project_root ! i))
           = language (chunk (results ! i))
      \<and> chunk_type (chunk (expand_context file_at results lb la project_root ! i))
           = chunk_type (chunk (results ! i))
      \<and> name (chunk (expand_context file_at results lb la project_root ! i))
           = name (chunk (results ! i))
      \<and> vector (chunk (expand_context file_at results lb la project_root ! i))
           = vector (chunk (results ! i))
      \<and> file_hash (chunk (expand_context file_at results lb la project_root ! i))
           = file_hash (chunk (results ! i))
      \<and> indexed_at (chunk (expand_context file_at results lb la project_root ! i))
           = indexed_at (chunk (results ! i))
      \<and> branch (chunk (expand_context file_at results lb la project_root ! i))
           = branch (chunk (results ! i))
      \<and> score (expand_context file_at results lb la project_root ! i) = score (results ! i)"
  proof (cases project_root)
    case None
    then show ?thesis by (simp add: none)
  next
    case (Some d)
    assume "i < length results"
    then have "expand_context file_at results lb la (Some d) ! i =
        expand_result (file_at d) lb la (results ! i)"
      by (rule expand_context_nth)
    with expand_result_frame [of "file_at d" lb la "results ! i"] show ?thesis
      unfolding Some by simp
  qed
  have rd: "i < length results \<and> SearchResult_valid (results ! i)
        \<and> file_at rt (path (chunk (results ! i))) = Readable content
        \<and> 1 \<le> min (int (length (readlines content))) (end_line (chunk (results ! i)) + la)
      \<longrightarrow>
        start_line (chunk (expand_context file_at results lb la (Some rt) ! i))
           = max 1 (start_line (chunk (results ! i)) - lb)
      \<and> end_line (chunk (expand_context file_at results lb la (Some rt) ! i))
           = min (int (length (readlines content))) (end_line (chunk (results ! i)) + la)
      \<and> chunk_text (chunk (expand_context file_at results lb la (Some rt) ! i))
           = concat (py_slice (readlines content)
                       (max 1 (start_line (chunk (results ! i)) - lb) - 1)
                       (min (int (length (readlines content)))
                            (end_line (chunk (results ! i)) + la)))"
    using expand_result_readable [of "results ! i" "file_at rt" content la lb]
    by (simp add: expand_context_nth)
  have ms: "i < length results
        \<and> (file_at rt (path (chunk (results ! i))) = Missing
           \<or> file_at rt (path (chunk (results ! i))) = Unreadable
           \<or> (file_at rt (path (chunk (results ! i))) = Readable content
              \<and> min (int (length (readlines content)))
                     (end_line (chunk (results ! i)) + la) < 1))
      \<longrightarrow> expand_context file_at results lb la (Some rt) ! i = results ! i"
    using expand_result_missing [of "file_at rt" "results ! i" lb la]
      expand_result_empty_range [of "file_at rt" "results ! i" content la lb]
    by (auto simp: expand_context_nth)
  show ?thesis
    using expand_context_length [of file_at results lb la project_root] none frame rd ms
    by blast
qed


theorem expand_context_frame_witness:
  "length (expand_context sample_file_at
             [sample_result ''a.py'' 2 3 (9 / 10), sample_result ''gone.py'' 1 2 (4 / 5)]
             1 1 (Some ''proj'')) = 2
   \<and> SearchResult_valid (sample_result ''a.py'' 2 3 (9 / 10))
   \<and> sample_file_at ''proj'' ''a.py'' =
       Readable (''l1'' @ [nl] @ ''l2'' @ [nl] @ ''l3'' @ [nl] @ ''l4'' @ [nl] @ ''l5'' @ [nl])
   \<and> expand_context sample_file_at
         [sample_result ''a.py'' 2 3 (9 / 10), sample_result ''gone.py'' 1 2 (4 / 5)]
         1 1 (Some ''proj'') ! 0
       = \<lparr>chunk = (chunk (sample_result ''a.py'' 2 3 (9 / 10)))
            \<lparr>start_line := 1, end_line := 4,
             chunk_text := ''l1'' @ [nl] @ ''l2'' @ [nl] @ ''l3'' @ [nl] @ ''l4'' @ [nl]\<rparr>,
          score = 9 / 10\<rparr>
   \<and> sample_file_at ''proj'' ''gone.py'' = Missing
   \<and> expand_context sample_file_at
         [sample_result ''a.py'' 2 3 (9 / 10), sample_result ''gone.py'' 1 2 (4 / 5)]
         1 1 (Some ''proj'') ! 1
       = sample_result ''gone.py'' 1 2 (4 / 5)"
proof -
  let ?a = "sample_result ''a.py'' 2 3 (9 / 10)"
  let ?g = "sample_result ''gone.py'' 1 2 (4 / 5)"
  let ?content = "''l1'' @ [nl] @ ''l2'' @ [nl] @ ''l3'' @ [nl] @ ''l4'' @ [nl] @ ''l5'' @ [nl]"
  let ?out = "expand_context sample_file_at [?a, ?g] 1 1 (Some ''proj'')"
  have v: "SearchResult_valid ?a"
    by (simp add: SearchResult_valid_def CodeChunk_valid_def sample_result_def)
  have fa: "sample_file_at ''proj'' (path (chunk ?a)) = Readable ?content"
    by (simp add: sample_file_at_def sample_result_def)
  have fg: "sample_file_at ''proj'' (path (chunk ?g)) = Missing"
    by (simp add: sample_file_at_def sample_result_def)
  have ln: "readlines ?content =
      [''l1'' @ [nl], ''l2'' @ [nl], ''l3'' @ [nl], ''l4'' @ [nl], ''l5'' @ [nl]]"
    by simp
  have se: "start_line (chunk ?a) = 2" "end_line (chunk ?a) = 3"
    by (simp_all add: sample_result_def)
  have sl: "py_slice (readlines ?content) 0 4 =
      [''l1'' @ [nl], ''l2'' @ [nl], ''l3'' @ [nl], ''l4'' @ [nl]]"
    unfolding ln by (simp add: py_slice_def clip_index_def)
  note inst0 = expand_context_frame [where file_at = sample_file_at and results = "[?a, ?g]"
      and lb = 1 and la = 1 and project_root = "Some ''proj''" and i = 0 and rt = "''proj''"
      and content = ?content]
  note inst1 = expand_context_frame [where file_at = sample_file_at and results = "[?a, ?g]"
      and lb = 1 and la = 1 and project_root = "Some ''proj''" and i = 1 and rt = "''proj''"
      and content = ?content]
  have len: "length ?out = 2" using inst0 by simp
  have fr: "path (chunk (?out ! 0)) = path (chunk ?a)
      \<and> language (chunk (?out ! 0)) = language (chunk ?a)
      \<and> chunk_type (chunk (?out ! 0)) = chunk_type (chunk ?a)
      \<and> name (chunk (?out ! 0)) = name (chunk ?a)
      \<and> vector (chunk (?out ! 0)) = vector (chunk ?a)
      \<and> file_hash (chunk (?out ! 0)) = file_hash (chunk ?a)
      \<and> indexed_at (chunk (?out ! 0)) = indexed_at (chunk ?a)
      \<and> branch (chunk (?out ! 0)) = branch (chunk ?a)
      \<and> score (?out ! 0) = score ?a"
    using inst0 by simp
  have ge: "1 \<le> min (int (length (readlines ?content))) (end_line (chunk ?a) + 1)"
    unfolding ln se by simp
  have ex: "start_line (chunk (?out ! 0)) = max 1 (start_line (chunk ?a) - 1)
      \<and> end_line (chunk (?out ! 0)) = min (int (length (readlines ?content))) (end_line (chunk ?a) + 1)
      \<and> chunk_text (chunk (?out ! 0)) =
          concat (py_slice (readlines ?content) (max 1 (start_line (chunk ?a) - 1) - 1)
             (min (int (length (readlines ?content))) (end_line (chunk ?a) + 1)))"
    using inst0 v fa ge by simp
  have ex': "start_line (chunk (?out ! 0)) = 1 \<and> end_line (chunk (?out ! 0)) = 4
      \<and> chunk_text (chunk (?out ! 0)) = ''l1'' @ [nl] @ ''l2'' @ [nl] @ ''l3'' @ [nl] @ ''l4'' @ [nl]"
    using ex sl unfolding se by (simp add: ln)
  have un: "?out ! 1 = ?g" using inst1 fg by simp
  have eq0: "?out ! 0 = \<lparr>chunk = (chunk ?a)\<lparr>start_line := 1, end_line := 4,
             chunk_text := ''l1'' @ [nl] @ ''l2'' @ [nl] @ ''l3'' @ [nl] @ ''l4'' @ [nl]\<rparr>,
          score = 9 / 10\<rparr>"
    using fr ex' by (cases "?out ! 0"; cases "chunk (?out ! 0)") (simp add: sample_result_def)
  show ?thesis
    using len v fa fg eq0 un by (simp add: sample_result_def)
qed

text \<open>
  Claim C8, as stated, fails for a file that exists and is readable but is empty: the
  clamped end line would be \<open>min(0, end_line + after) = 0\<close>, the new chunk is refused
  by the \<open>end_line >= 1\<close> validation, and the original result with end line 1 is kept.
\<close>

theorem expand_context_empty_file_counterexample:
  "SearchResult_valid (sample_result ''empty.py'' 1 1 (9 / 10))
   \<and> sample_file_at ''proj'' ''empty.py'' = Readable []
   \<and> min (int (length (readlines []))) (end_line (chunk (sample_result ''empty.py'' 1 1 (9 / 10))) + 3) = 0
   \<and> end_line (chunk (hd (expand_context sample_file_at [sample_result ''empty.py'' 1 1 (9 / 10)]
                               3 3 (Some ''proj'')))) = 1
   \<and> expand_context sample_file_at [sample_result ''empty.py'' 1 1 (9 / 10)] 3 3 (Some ''proj'')
       = [sample_result ''empty.py'' 1 1 (9 / 10)]"
  by (simp add: expand_context_def expand_result_def sample_file_at_def sample_result_def
      SearchResult_valid_def CodeChunk_valid_def new_CodeChunk_def)

section \<open>Search: scores, modes and the query cache\<close>

lemma new_SearchResult_Inr:
  "new_SearchResult c s = Inr r \<Longrightarrow> 0 \<le> s \<and> s \<le> 1 \<and> r = \<lparr>chunk = c, score = s\<rparr>"
  by (auto simp: new_SearchResult_def split: if_splits)

lemma new_SearchResult_Inl:
  "s < 0 \<or> 1 < s \<Longrightarrow> new_SearchResult c s = Inl ValidationError"
  by (auto simp: new_SearchResult_def)

lemma convert_result_range:
  assumes "convert_result h st = Inr r"
  shows "0 \<le> score r \<and> score r \<le> 1"
proof -
  from assms obtain c s where "new_SearchResult c s = Inr r"
    by (auto simp: convert_result_def Let_def split: sum.splits if_splits)
  from new_SearchResult_Inr [OF this] show ?thesis by simp
qed

lemma convert_results_range:
  "convert_results hs st = Inr rs \<Longrightarrow> \<forall>r\<in>set rs. 0 \<le> score r \<and> score r \<le> 1"
proof (induction hs arbitrary: rs)
  case Nil
  then show ?case by simp
next
  case (Cons h hs)
  from Cons.prems obtain r rs' where r: "convert_result h st = Inr r"
    and rs': "convert_results hs st = Inr rs'" and eq: "rs = r # rs'"
    by (auto split: sum.splits)
  from convert_result_range [OF r] Cons.IH [OF rs'] eq show ?case by simp
qed

lemma search_vector_range:
  "search_vector eng tbl qv a = Inr rs \<Longrightarrow> \<forall>r\<in>set rs. 0 \<le> score r \<and> score r \<le> 1"
  by (auto simp: search_vector_def split: sum.splits dest: convert_results_range)

lemma search_fts_range:
  "search_fts eng tbl qt a = Inr rs \<Longrightarrow> \<forall>r\<in>set rs. 0 \<le> score r \<and> score r \<le> 1"
  by (auto simp: search_fts_def split: sum.splits if_splits dest: convert_results_range)

lemma search_hybrid_range:
  assumes "search_hybrid eng tbl qt a = Inr rs"
  shows "\<forall>r\<in>set rs. 0 \<le> score r \<and> score r \<le> 1"
proof (cases "case eng tbl (HybridQuery qt) (limit a) (apply_filters a) of
              Inl e \<Rightarrow> Inl e
            | Inr results \<Rightarrow> convert_results results ''hybrid''")
  case (Inr rs')
  with assms have "rs' = rs" by (simp add: search_hybrid_def)
  with Inr show ?thesis by (auto split: sum.splits dest: convert_results_range)
next
  case (Inl e)
  with assms have "(case query_vector a of
                  Some qv \<Rightarrow> if qv \<noteq> [] then search_vector eng tbl qv a else Inr []
                | None \<Rightarrow> Inr []) = Inr rs"
    by (simp add: search_hybrid_def split: if_splits)
  then show ?thesis
    by (auto split: option.splits if_splits dest: search_vector_range)
qed

lemma route_search_range:
  "route_search msg eng tbl m a = Inr rs \<Longrightarrow> \<forall>r\<in>set rs. 0 \<le> score r \<and> score r \<le> 1"
  unfolding route_search_def
  by (auto split: if_splits option.splits
      dest: search_vector_range search_fts_range search_hybrid_range)

lemma post_filter_set: "set (post_filter rs m) = {r \<in> set rs. \<not> score r < m}"
  by (auto simp: post_filter_def)

lemma execute_search_impl_range:
  assumes "execute_search_impl eng tbl m a = Inr rs"
  shows "\<forall>r\<in>set rs. 0 \<le> score r \<and> score r \<le> 1 \<and> min_score a \<le> score r"
proof -
  from assms obtain rs' where r: "route_search (''Invalid search mode: '' @ m) eng tbl m a = Inr rs'"
    and eq: "rs = post_filter rs' (min_score a)"
    by (auto simp: execute_search_impl_def split: sum.splits)
  from route_search_range [OF r] eq show ?thesis by (auto simp: post_filter_def)
qed

lemma execute_search_impl_mode:
  "execute_search_impl eng tbl m a = Inr rs \<Longrightarrow> m = ''vector'' \<or> m = ''fts'' \<or> m = ''hybrid''"
  by (auto simp: execute_search_impl_def route_search_def split: sum.splits if_splits)

lemma uncached_search_range:
  assumes "uncached_search eng st m a = Inr rs"
  shows "\<forall>r\<in>set rs. 0 \<le> score r \<and> score r \<le> 1 \<and> min_score a \<le> score r"
proof -
  from assms obtain msg rs' where r: "route_search msg eng (rows st) m a = Inr rs'"
    and eq: "rs = post_filter rs' (min_score a)"
    by (auto simp: uncached_search_def split: sum.splits)
  from route_search_range [OF r] eq show ?thesis by (auto simp: post_filter_def)
qed


lemma cache_ok_subset:
  assumes "cache_ok st" "set c \<subseteq> set (cache st)"
  shows "cache_ok (st\<lparr>cache := c\<rparr>)"
  using assms unfolding cache_ok_def by auto

lemma cache_ok_insert:
  assumes ok: "cache_ok st" and sub: "set c \<subseteq> insert (k, rs) (set (cache st))"
    and md: "c_mode k = ''vector'' \<or> c_mode k = ''fts'' \<or> c_mode k = ''hybrid''"
    and rs: "\<forall>r\<in>set rs. 0 \<le> score r \<and> score r \<le> 1 \<and> c_min_score k \<le> score r"
  shows "cache_ok (st\<lparr>cache := c\<rparr>)"
  unfolding cache_ok_def
proof
  fix kv assume "kv \<in> set (cache (st\<lparr>cache := c\<rparr>))"
  then have "kv = (k, rs) \<or> kv \<in> set (cache st)" using sub by auto
  then show "(c_mode (fst kv) = ''vector'' \<or> c_mode (fst kv) = ''fts'' \<or> c_mode (fst kv) = ''hybrid'')
        \<and> (\<forall>r\<in>set (snd kv). 0 \<le> score r \<and> score r \<le> 1 \<and> c_min_score (fst kv) \<le> score r)"
  proof
    assume "kv = (k, rs)"
    with md rs show ?thesis by simp
  next
    assume "kv \<in> set (cache st)"
    with ok show ?thesis unfolding cache_ok_def by blast
  qed
qed

lemma make_cache_args_sel:
  "c_min_score (make_cache_args m a) = min_score a" "c_mode (make_cache_args m a) = m"
  by (simp_all add: make_cache_args_def)

lemma cached_search_ok:
  assumes ok: "cache_ok st" and cs: "cached_search eng st m a = (res, st')"
  shows "cache_ok st' \<and> rows st' = rows st \<and> cache_enabled st' = cache_enabled st
     \<and> cache_size st' = cache_size st
     \<and> (\<forall>rs. res = Inr rs \<longrightarrow>
           (\<forall>r\<in>set rs. 0 \<le> score r \<and> score r \<le> 1 \<and> min_score a \<le> score r))"
proof -
  let ?k = "make_cache_args m a"
  show ?thesis
  proof (cases "hashable ?k")
    case False
    with cs ok show ?thesis by (auto simp: cached_search_def Let_def)
  next
    case True
    show ?thesis
    proof (cases "map_of (cache st) ?k")
      case (Some results)
      then have mem: "(?k, results) \<in> set (cache st)" by (rule map_of_SomeD)
      with ok have rng: "\<forall>r\<in>set results. 0 \<le> score r \<and> score r \<le> 1 \<and> min_score a \<le> score r"
        unfolding cache_ok_def by (fastforce simp: make_cache_args_sel)
      from cs True Some have res: "res = Inr results"
        and st': "st' = st\<lparr>cache := (?k, results) # filter (\<lambda>kv. fst kv \<noteq> ?k) (cache st)\<rparr>"
        by (simp_all add: cached_search_def Let_def)
      have "set ((?k, results) # filter (\<lambda>kv. fst kv \<noteq> ?k) (cache st)) \<subseteq> set (cache st)"
        using mem by auto
      from cache_ok_subset [OF ok this] rng res st' show ?thesis by simp
    next
      case None
      show ?thesis
      proof (cases "execute_search_impl eng (rows st) m a")
        case (Inl e)
        with cs True None ok show ?thesis by (auto simp: cached_search_def Let_def)
      next
        case (Inr results)
        from cs True None Inr have res: "res = Inr results"
          and st': "st' = st\<lparr>cache := take (nat (cache_size st)) ((?k, results) # cache st)\<rparr>"
          by (simp_all add: cached_search_def Let_def)
        have rng: "\<forall>r\<in>set results. 0 \<le> score r \<and> score r \<le> 1 \<and> min_score a \<le> score r"
          using execute_search_impl_range [OF Inr] .
        have md: "m = ''vector'' \<or> m = ''fts'' \<or> m = ''hybrid''"
          using execute_search_impl_mode [OF Inr] .
        have "set (take (nat (cache_size st)) ((?k, results) # cache st))
              \<subseteq> insert (?k, results) (set (cache st))"
          using set_take_subset [of "nat (cache_size st)" "(?k, results) # cache st"] by simp
        from cache_ok_insert [OF ok this] md rng have "cache_ok st'"
          unfolding st' by (simp add: make_cache_args_sel)
        with rng res st' show ?thesis by simp
      qed
    qed
  qed
qed

lemma search_ok:
  assumes ok: "cache_ok st" and s: "search eng st a = (res, st')"
  shows "cache_ok st' \<and> rows st' = rows st \<and> cache_enabled st' = cache_enabled st
     \<and> cache_size st' = cache_size st
     \<and> (\<forall>rs. res = Inr rs \<longrightarrow>
           (\<forall>r\<in>set rs. 0 \<le> score r \<and> score r \<le> 1 \<and> min_score a \<le> score r))"
proof (cases "resolve_mode (mode a) (query_text a) (query_vector a)")
  case (Inl e)
  with s ok show ?thesis by (auto simp: search_def)
next
  case (Inr m)
  show ?thesis
  proof (cases "validate_inputs m (query_text a) (query_vector a)")
    case (Inl e)
    with s ok Inr show ?thesis by (auto simp: search_def)
  next
    case vi: (Inr u)
    show ?thesis
    proof (cases "cache_enabled st \<and> use_cache a")
      case False
      with s Inr vi have "res = uncached_search eng st m a" "st' = st"
        by (auto simp: search_def)
      with ok uncached_search_range [of eng st m a] show ?thesis by simp
    next
      case True
      obtain cres cst where c: "cached_search eng st m a = (cres, cst)"
        by (cases "cached_search eng st m a")
      note cok = cached_search_ok [OF ok c]
      show ?thesis
      proof (cases cres)
        case (Inr results)
        with s \<open>resolve_mode (mode a) (query_text a) (query_vector a) = Inr m\<close> vi True c
        have "res = Inr results" "st' = cst" by (simp_all add: search_def)
        with cok Inr show ?thesis by simp
      next
        case (Inl e)
        with s \<open>resolve_mode (mode a) (query_text a) (query_vector a) = Inr m\<close> vi True c
        have both: "st' = cst \<and> res = (if e = TypeError then uncached_search eng cst m a else Inl e)"
          by (auto simp: search_def split: if_splits)
        then have st': "st' = cst"
          and res: "res = (if e = TypeError then uncached_search eng cst m a else Inl e)"
          by simp_all
        from res uncached_search_range [of eng cst m a]
        have "\<forall>rs. res = Inr rs \<longrightarrow>
           (\<forall>r\<in>set rs. 0 \<le> score r \<and> score r \<le> 1 \<and> min_score a \<le> score r)"
          by (auto split: if_splits)
        with cok st' show ?thesis by simp
      qed
    qed
  qed
qed

lemma cache_ok_empty: "cache st = [] \<Longrightarrow> cache_ok st"
  by (simp add: cache_ok_def)


lemma convert_result_error:
  assumes "sty = ''fts'' \<or> sty = ''hybrid''" "convert_result h sty = Inl e"
  shows "e = ValidationError"
  using assms
  by (auto simp: convert_result_def new_CodeChunk_def new_SearchResult_def
      split: if_splits sum.splits)

lemma convert_result_out_of_range:
  assumes "sty = ''fts'' \<or> sty = ''hybrid''" "hit_score h = Some sc" "sc < 0 \<or> 1 < sc"
  shows "convert_result h sty = Inl ValidationError"
  using assms
  by (auto simp: convert_result_def new_CodeChunk_def new_SearchResult_def)

lemma convert_results_out_of_range:
  assumes sty: "sty = ''fts'' \<or> sty = ''hybrid''"
  shows "h \<in> set hs \<Longrightarrow> hit_score h = Some sc \<Longrightarrow> sc < 0 \<or> 1 < sc \<Longrightarrow>
         convert_results hs sty = Inl ValidationError"
proof (induction hs)
  case Nil
  then show ?case by simp
next
  case (Cons x xs)
  show ?case
  proof (cases "convert_result x sty")
    case (Inl e)
    with convert_result_error [OF sty Inl] show ?thesis by simp
  next
    case (Inr r)
    have "x \<noteq> h"
      using Inr convert_result_out_of_range [OF sty Cons.prems(2,3)] by auto
    with Cons.prems have "h \<in> set xs" by simp
    from Cons.IH [OF this Cons.prems(2,3)] Inr show ?thesis by simp
  qed
qed

lemma convert_result_distance:
  "convert_result h ''distance'' = Inr r \<Longrightarrow>
   score r = 1 / (1 + (case hit_distance h of None \<Rightarrow> 0 | Some d \<Rightarrow> d))"
  by (auto simp: convert_result_def new_SearchResult_def new_CodeChunk_def Let_def
      split: if_splits sum.splits)

lemma convert_result_distance_nonneg:
  assumes "hit_distance h = Some d" "0 \<le> d" "CodeChunk_valid (hit_row h)"
  shows "convert_result h ''distance'' = Inr \<lparr>chunk = hit_row h, score = 1 / (1 + d)\<rparr>
     \<and> 0 < 1 / (1 + d) \<and> 1 / (1 + d) \<le> 1"
  using assms
  by (simp add: convert_result_def new_SearchResult_def new_CodeChunk_def Let_def)

lemma post_filter_not_below: "post_filter rs m = filter (\<lambda>r. \<not> score r < m) rs"
  by (simp add: post_filter_def not_less)

lemma resolve_mode_valid:
  "resolve_mode None qt qv = Inr m \<Longrightarrow> validate_inputs m qt qv = Inr ()"
  by (cases qt; cases qv) (auto simp: resolve_mode_def validate_inputs_def split: if_splits)

lemma search_unknown_mode:
  assumes ok: "cache_ok st" and md: "mode a = Some m"
    and m: "m \<noteq> ''vector''" "m \<noteq> ''fts''" "m \<noteq> ''hybrid''"
  shows "\<exists>msg. search eng st a = (Inl (ValueError msg), st)"
proof -
  have rm: "resolve_mode (mode a) (query_text a) (query_vector a) = Inr m"
    by (simp add: resolve_mode_def md)
  have vi: "validate_inputs m (query_text a) (query_vector a) = Inr ()"
    using m by (simp add: validate_inputs_def)
  obtain msg where un: "uncached_search eng st m a = Inl (ValueError msg)"
    using m by (simp add: uncached_search_def route_search_def)
  have ex: "execute_search_impl eng (rows st) m a = Inl (ValueError (''Invalid search mode: '' @ m))"
    using m by (simp add: execute_search_impl_def route_search_def)
  show ?thesis
  proof (cases "cache_enabled st \<and> use_cache a")
    case False
    with rm vi un show ?thesis by (auto simp: search_def)
  next
    case True
    let ?k = "make_cache_args m a"
    have nohit: "map_of (cache st) ?k = None"
    proof (cases "map_of (cache st) ?k")
      case None
      then show ?thesis .
    next
      case (Some results)
      then have "(?k, results) \<in> set (cache st)" by (rule map_of_SomeD)
      with ok have "c_mode ?k = ''vector'' \<or> c_mode ?k = ''fts'' \<or> c_mode ?k = ''hybrid''"
        unfolding cache_ok_def by fastforce
      with m show ?thesis by (simp add: make_cache_args_sel)
    qed
    show ?thesis
    proof (cases "hashable ?k")
      case h: True
      with nohit ex have "cached_search eng st m a =
          (Inl (ValueError (''Invalid search mode: '' @ m)), st)"
        by (simp add: cached_search_def Let_def)
      with rm vi True show ?thesis by (simp add: search_def)
    next
      case h: False
      then have "cached_search eng st m a = (Inl TypeError, st)"
        by (simp add: cached_search_def Let_def)
      with rm vi True un show ?thesis by (simp add: search_def)
    qed
  qed
qed


lemma convert_result_distance_eq:
  "convert_result h ''distance'' = Inr r \<Longrightarrow>
   r = \<lparr>chunk = hit_row h,
        score = 1 / (1 + (case hit_distance h of None \<Rightarrow> 0 | Some d \<Rightarrow> d))\<rparr>"
  by (auto simp: convert_result_def new_SearchResult_def new_CodeChunk_def Let_def
      split: if_splits sum.splits)

lemma convert_result_score_eq:
  "ty = ''fts'' \<or> ty = ''hybrid'' \<Longrightarrow> convert_result h ty = Inr r \<Longrightarrow>
   r = \<lparr>chunk = hit_row h, score = (case hit_score h of None \<Rightarrow> 0 | Some sc \<Rightarrow> sc)\<rparr>"
  by (auto simp: convert_result_def new_SearchResult_def new_CodeChunk_def Let_def
      split: if_splits sum.splits)

lemma convert_results_distance_eq:
  "convert_results hits ''distance'' = Inr rs \<Longrightarrow>
   rs = map (\<lambda>h. \<lparr>chunk = hit_row h,
                    score = 1 / (1 + (case hit_distance h of None \<Rightarrow> 0 | Some d \<Rightarrow> d))\<rparr>)
          hits"
proof (induction hits arbitrary: rs)
  case Nil
  then show ?case by simp
next
  case (Cons h hits)
  from Cons.prems obtain r rs' where r: "convert_result h ''distance'' = Inr r"
    and rs': "convert_results hits ''distance'' = Inr rs'" and eq: "rs = r # rs'"
    by (auto split: sum.splits)
  from convert_result_distance_eq [OF r] Cons.IH [OF rs'] eq show ?case by simp
qed

lemma convert_results_distance_valid:
  assumes "\<forall>h\<in>set hits. CodeChunk_valid (hit_row h)
      \<and> 0 \<le> (case hit_distance h of None \<Rightarrow> 0 | Some d \<Rightarrow> d)"
  shows "convert_results hits ''distance'' =
     Inr (map (\<lambda>h. \<lparr>chunk = hit_row h,
                      score = 1 / (1 + (case hit_distance h of None \<Rightarrow> 0 | Some d \<Rightarrow> d))\<rparr>)
            hits)"
  using assms
proof (induction hits)
  case Nil
  show ?case by simp
next
  case (Cons h hits)
  let ?d = "case hit_distance h of None \<Rightarrow> 0 | Some d \<Rightarrow> d"
  from Cons.prems have v: "CodeChunk_valid (hit_row h)" and d: "0 \<le> ?d" by simp_all
  from d have "1 + ?d \<noteq> 0" "0 \<le> 1 / (1 + ?d)" "1 / (1 + ?d) \<le> 1" by simp_all
  with v have "convert_result h ''distance'' = Inr \<lparr>chunk = hit_row h, score = 1 / (1 + ?d)\<rparr>"
    by (simp add: convert_result_def new_SearchResult_def new_CodeChunk_def Let_def)
  with Cons.IH Cons.prems show ?case by simp
qed

lemma convert_results_score_valid:
  assumes ty: "ty = ''fts'' \<or> ty = ''hybrid''"
    and ok: "\<forall>h\<in>set hits. CodeChunk_valid (hit_row h)
      \<and> 0 \<le> (case hit_score h of None \<Rightarrow> 0 | Some sc \<Rightarrow> sc)
      \<and> (case hit_score h of None \<Rightarrow> 0 | Some sc \<Rightarrow> sc) \<le> 1"
  shows "convert_results hits ty =
     Inr (map (\<lambda>h. \<lparr>chunk = hit_row h,
                      score = (case hit_score h of None \<Rightarrow> 0 | Some sc \<Rightarrow> sc)\<rparr>) hits)"
  using ok
proof (induction hits)
  case Nil
  show ?case by simp
next
  case (Cons h hits)
  from Cons.prems ty
  have "convert_result h ty =
      Inr \<lparr>chunk = hit_row h, score = (case hit_score h of None \<Rightarrow> 0 | Some sc \<Rightarrow> sc)\<rparr>"
    by (auto simp: convert_result_def new_SearchResult_def new_CodeChunk_def Let_def)
  with Cons.IH Cons.prems show ?case by simp
qed

lemma search_vector_mode:
  assumes "resolve_mode (mode a) (query_text a) (query_vector a) = Inr ''vector''"
    and "query_vector a = Some qv"
  shows "search eng st a = (uncached_search eng st ''vector'' a, st)"
  using assms
  by (simp add: search_def validate_inputs_def cached_search_def hashable_def
      make_cache_args_def Let_def)

lemma search_vector_mode_query:
  assumes "resolve_mode (mode a) (query_text a) (query_vector a) = Inr ''vector''"
    and "search eng st a = (Inr results, st')"
  shows "\<exists>qv. query_vector a = Some qv"
  using assms by (cases "query_vector a") (simp_all add: search_def validate_inputs_def)

lemma uncached_vector:
  assumes "query_vector a = Some qv"
  shows "uncached_search eng st ''vector'' a =
     (case eng (rows st) (VectorQuery qv) (limit a) (apply_filters a) of
        Inl e \<Rightarrow> Inl e
      | Inr hits \<Rightarrow>
          (case convert_results hits ''distance'' of
             Inl e \<Rightarrow> Inl e
           | Inr rs \<Rightarrow> Inr (post_filter rs (min_score a))))"
  using assms
  by (simp add: uncached_search_def route_search_def search_vector_def split: sum.splits)

text \<open>
  Claim C3.  Whenever \<open>search\<close> returns results, in vector and hybrid mode as in every
  mode, cached or not, every returned score lies in \<open>[0, 1]\<close> and is not below
  \<open>min_score\<close> (the cache being in a state that searches produce, which they maintain).
  In vector mode the score is \<open>1 / (1 + distance)\<close> of the distance the engine returned,
  which for a distance that is not negative lies in \<open>(0, 1]\<close>.  The score filter keeps
  exactly the results whose score is not strictly below the threshold, and it is applied
  to the scored results of the mode in every mode.  A search in vector mode that returns
  results returns the hits of the engine for the query vector, each with its row and the
  score \<open>1 / (1 + distance)\<close>, less those the score filter excludes, in the engine's
  order; and it returns them whenever the engine answers with valid rows at distances
  that are not negative.  Likewise the keyword and hybrid searches that bypass the cache
  return the engine's hits with the engine's relevance as score, less those the filter
  excludes.
\<close>

theorem search_score_invariant:
  "(cache_ok st \<and> search eng st a = (Inr results, st') \<longrightarrow>
      (\<forall>r\<in>set results. 0 \<le> score r \<and> score r \<le> 1 \<and> \<not> score r < min_score a)
      \<and> cache_ok st')
   \<and> (convert_result h ''distance'' = Inr r \<longrightarrow>
        score r = 1 / (1 + (case hit_distance h of None \<Rightarrow> 0 | Some d \<Rightarrow> d)))
   \<and> (hit_distance h' = Some d' \<and> 0 \<le> d' \<and> CodeChunk_valid (hit_row h') \<longrightarrow>
        convert_result h' ''distance'' = Inr \<lparr>chunk = hit_row h', score = 1 / (1 + d')\<rparr>
        \<and> 0 < 1 / (1 + d') \<and> 1 / (1 + d') \<le> 1)
   \<and> post_filter rs m = filter (\<lambda>r. \<not> score r < m) rs
   \<and> (query_vector a = Some qv \<and> search_vector eng (rows st) qv a = Inr raw \<longrightarrow>
        uncached_search eng st ''vector'' a = Inr (post_filter raw (min_score a)))
   \<and> (query_text a = Some qt \<and> search_fts eng (rows st) qt a = Inr raw \<longrightarrow>
        uncached_search eng st ''fts'' a = Inr (post_filter raw (min_score a)))
   \<and> (query_text a = Some qt \<and> search_hybrid eng (rows st) qt a = Inr raw \<longrightarrow>
        uncached_search eng st ''hybrid'' a = Inr (post_filter raw (min_score a)))
   \<and> (resolve_mode (mode a) (query_text a) (query_vector a) = Inr ''vector''
        \<and> search eng st a = (Inr results, st') \<longrightarrow>
        st' = st
        \<and> (\<exists>v hits. query_vector a = Some v
              \<and> eng (rows st) (VectorQuery v) (limit a) (apply_filters a) = Inr hits
              \<and> results =
                  filter (\<lambda>r. \<not> score r < min_score a)
                    (map (\<lambda>h. \<lparr>chunk = hit_row h,
                                 score = 1 / (1 + (case hit_distance h of
                                                     None \<Rightarrow> 0 | Some d \<Rightarrow> d))\<rparr>)
                       hits)))
   \<and> (resolve_mode (mode a) (query_text a) (query_vector a) = Inr ''vector''
        \<and> query_vector a = Some qv
        \<and> eng (rows st) (VectorQuery qv) (limit a) (apply_filters a) = Inr vhits
        \<and> (\<forall>h\<in>set vhits. CodeChunk_valid (hit_row h)
              \<and> 0 \<le> (case hit_distance h of None \<Rightarrow> 0 | Some d \<Rightarrow> d)) \<longrightarrow>
        search eng st a =
          (Inr (filter (\<lambda>r. \<not> score r < min_score a)
                  (map (\<lambda>h. \<lparr>chunk = hit_row h,
                               score = 1 / (1 + (case hit_distance h of
                                                   None \<Rightarrow> 0 | Some d \<Rightarrow> d))\<rparr>)
                     vhits)),
           st))
   \<and> (query_text a = Some qt
        \<and> eng (rows st) (FtsQuery qt) (limit a) (apply_filters a) = Inr fhits
        \<and> (\<forall>h\<in>set fhits. CodeChunk_valid (hit_row h)
              \<and> 0 \<le> (case hit_score h of None \<Rightarrow> 0 | Some sc \<Rightarrow> sc)
              \<and> (case hit_score h of None \<Rightarrow> 0 | Some sc \<Rightarrow> sc) \<le> 1) \<longrightarrow>
        uncached_search eng st ''fts'' a =
          Inr (filter (\<lambda>r. \<not> score r < min_score a)
                 (map (\<lambda>h. \<lparr>chunk = hit_row h,
                              score = (case hit_score h of None \<Rightarrow> 0 | Some sc \<Rightarrow> sc)\<rparr>)
                    fhits)))
   \<and> (query_text a = Some qt
        \<and> eng (rows st) (HybridQuery qt) (limit a) (apply_filters a) = Inr hhits
        \<and> (\<forall>h\<in>set hhits. CodeChunk_valid (hit_row h)
              \<and> 0 \<le> (case hit_score h of None \<Rightarrow> 0 | Some sc \<Rightarrow> sc)
              \<and> (case hit_score h of None \<Rightarrow> 0 | Some sc \<Rightarrow> sc) \<le> 1) \<longrightarrow>
        uncached_search eng st ''hybrid'' a =
          Inr (filter (\<lambda>r. \<not> score r < min_score a)
                 (map (\<lambda>h. \<lparr>chunk = hit_row h,
                              score = (case hit_score h of None \<Rightarrow> 0 | Some sc \<Rightarrow> sc)\<rparr>)
                    hhits)))"
proof -
  let ?vs = "\<lambda>h. \<lparr>chunk = hit_row h,
      score = 1 / (1 + (case hit_distance h of None \<Rightarrow> 0 | Some d \<Rightarrow> d))\<rparr>"
  let ?ts = "\<lambda>h. \<lparr>chunk = hit_row h,
      score = (case hit_score h of None \<Rightarrow> 0 | Some sc \<Rightarrow> sc)\<rparr>"
  have 1: "cache_ok st \<and> search eng st a = (Inr results, st') \<longrightarrow>
      (\<forall>r\<in>set results. 0 \<le> score r \<and> score r \<le> 1 \<and> \<not> score r < min_score a)
      \<and> cache_ok st'"
    using search_ok [of st eng a "Inr results" st'] by (auto simp: not_less)
  have 2: "convert_result h ''distance'' = Inr r \<longrightarrow>
        score r = 1 / (1 + (case hit_distance h of None \<Rightarrow> 0 | Some d \<Rightarrow> d))"
    using convert_result_distance by blast
  have 3: "hit_distance h' = Some d' \<and> 0 \<le> d' \<and> CodeChunk_valid (hit_row h') \<longrightarrow>
        convert_result h' ''distance'' = Inr \<lparr>chunk = hit_row h', score = 1 / (1 + d')\<rparr>
        \<and> 0 < 1 / (1 + d') \<and> 1 / (1 + d') \<le> 1"
    using convert_result_distance_nonneg [of h' d'] by blast
  have 5: "query_vector a = Some qv \<and> search_vector eng (rows st) qv a = Inr raw \<longrightarrow>
        uncached_search eng st ''vector'' a = Inr (post_filter raw (min_score a))"
    by (simp add: uncached_search_def route_search_def)
  have 6: "query_text a = Some qt \<and> search_fts eng (rows st) qt a = Inr raw \<longrightarrow>
        uncached_search eng st ''fts'' a = Inr (post_filter raw (min_score a))"
    by (simp add: uncached_search_def route_search_def)
  have 7: "query_text a = Some qt \<and> search_hybrid eng (rows st) qt a = Inr raw \<longrightarrow>
        uncached_search eng st ''hybrid'' a = Inr (post_filter raw (min_score a))"
    by (simp add: uncached_search_def route_search_def)
  have 8: "resolve_mode (mode a) (query_text a) (query_vector a) = Inr ''vector''
        \<and> search eng st a = (Inr results, st') \<longrightarrow>
        st' = st
        \<and> (\<exists>v hits. query_vector a = Some v
              \<and> eng (rows st) (VectorQuery v) (limit a) (apply_filters a) = Inr hits
              \<and> results = filter (\<lambda>r. \<not> score r < min_score a) (map ?vs hits))"
  proof (intro impI, elim conjE)
    assume rm: "resolve_mode (mode a) (query_text a) (query_vector a) = Inr ''vector''"
      and s: "search eng st a = (Inr results, st')"
    from search_vector_mode_query [OF rm s] obtain v where v: "query_vector a = Some v" ..
    from search_vector_mode [OF rm v, of eng st] s
    have st: "st' = st" and u: "uncached_search eng st ''vector'' a = Inr results" by simp_all
    from u obtain hits rs0
      where hits: "eng (rows st) (VectorQuery v) (limit a) (apply_filters a) = Inr hits"
        and rs0: "convert_results hits ''distance'' = Inr rs0"
        and res: "results = post_filter rs0 (min_score a)"
      unfolding uncached_vector [OF v] by (auto split: sum.splits)
    from convert_results_distance_eq [OF rs0] res
    have "results = filter (\<lambda>r. \<not> score r < min_score a) (map ?vs hits)"
      by (simp add: post_filter_not_below)
    with st v hits show "st' = st
        \<and> (\<exists>v hits. query_vector a = Some v
              \<and> eng (rows st) (VectorQuery v) (limit a) (apply_filters a) = Inr hits
              \<and> results = filter (\<lambda>r. \<not> score r < min_score a) (map ?vs hits))"
      by blast
  qed
  have 9: "resolve_mode (mode a) (query_text a) (query_vector a) = Inr ''vector''
        \<and> query_vector a = Some qv
        \<and> eng (rows st) (VectorQuery qv) (limit a) (apply_filters a) = Inr vhits
        \<and> (\<forall>h\<in>set vhits. CodeChunk_valid (hit_row h)
              \<and> 0 \<le> (case hit_distance h of None \<Rightarrow> 0 | Some d \<Rightarrow> d)) \<longrightarrow>
        search eng st a =
          (Inr (filter (\<lambda>r. \<not> score r < min_score a) (map ?vs vhits)), st)"
  proof (intro impI, elim conjE)
    assume rm: "resolve_mode (mode a) (query_text a) (query_vector a) = Inr ''vector''"
      and v: "query_vector a = Some qv"
      and hits: "eng (rows st) (VectorQuery qv) (limit a) (apply_filters a) = Inr vhits"
      and ok: "\<forall>h\<in>set vhits. CodeChunk_valid (hit_row h)
              \<and> 0 \<le> (case hit_distance h of None \<Rightarrow> 0 | Some d \<Rightarrow> d)"
    show "search eng st a =
          (Inr (filter (\<lambda>r. \<not> score r < min_score a) (map ?vs vhits)), st)"
      unfolding search_vector_mode [OF rm v] uncached_vector [OF v]
      by (simp add: hits convert_results_distance_valid [OF ok] post_filter_not_below)
  qed
  have 10: "query_text a = Some qt
        \<and> eng (rows st) (FtsQuery qt) (limit a) (apply_filters a) = Inr fhits
        \<and> (\<forall>h\<in>set fhits. CodeChunk_valid (hit_row h)
              \<and> 0 \<le> (case hit_score h of None \<Rightarrow> 0 | Some sc \<Rightarrow> sc)
              \<and> (case hit_score h of None \<Rightarrow> 0 | Some sc \<Rightarrow> sc) \<le> 1) \<longrightarrow>
        uncached_search eng st ''fts'' a =
          Inr (filter (\<lambda>r. \<not> score r < min_score a) (map ?ts fhits))"
  proof (intro impI, elim conjE)
    assume t: "query_text a = Some qt"
      and hits: "eng (rows st) (FtsQuery qt) (limit a) (apply_filters a) = Inr fhits"
      and ok: "\<forall>h\<in>set fhits. CodeChunk_valid (hit_row h)
              \<and> 0 \<le> (case hit_score h of None \<Rightarrow> 0 | Some sc \<Rightarrow> sc)
              \<and> (case hit_score h of None \<Rightarrow> 0 | Some sc \<Rightarrow> sc) \<le> 1"
    have "convert_results fhits ''fts'' = Inr (map ?ts fhits)"
      by (rule convert_results_score_valid [OF _ ok]) simp
    with t hits show "uncached_search eng st ''fts'' a =
          Inr (filter (\<lambda>r. \<not> score r < min_score a) (map ?ts fhits))"
      by (simp add: uncached_search_def route_search_def search_fts_def post_filter_not_below)
  qed
  have 11: "query_text a = Some qt
        \<and> eng (rows st) (HybridQuery qt) (limit a) (apply_filters a) = Inr hhits
        \<and> (\<forall>h\<in>set hhits. CodeChunk_valid (hit_row h)
              \<and> 0 \<le> (case hit_score h of None \<Rightarrow> 0 | Some sc \<Rightarrow> sc)
              \<and> (case hit_score h of None \<Rightarrow> 0 | Some sc \<Rightarrow> sc) \<le> 1) \<longrightarrow>
        uncached_search eng st ''hybrid'' a =
          Inr (filter (\<lambda>r. \<not> score r < min_score a) (map ?ts hhits))"
  proof (intro impI, elim conjE)
    assume t: "query_text a = Some qt"
      and hits: "eng (rows st) (HybridQuery qt) (limit a) (apply_filters a) = Inr hhits"
      and ok: "\<forall>h\<in>set hhits. CodeChunk_valid (hit_row h)
              \<and> 0 \<le> (case hit_score h of None \<Rightarrow> 0 | Some sc \<Rightarrow> sc)
              \<and> (case hit_score h of None \<Rightarrow> 0 | Some sc \<Rightarrow> sc) \<le> 1"
    have "convert_results hhits ''hybrid'' = Inr (map ?ts hhits)"
      by (rule convert_results_score_valid [OF _ ok]) simp
    with t hits show "uncached_search eng st ''hybrid'' a =
          Inr (filter (\<lambda>r. \<not> score r < min_score a) (map ?ts hhits))"
      by (simp add: uncached_search_def route_search_def search_hybrid_def
          post_filter_not_below)
  qed
  from 1 2 3 post_filter_not_below [of rs m] 5 6 7 8 9 10 11 show ?thesis
    by (intro conjI)
qed

lemma sample_store_ok: "cache_ok sample_store"
  by (simp add: cache_ok_def sample_store_def)

lemma sample_chunk_valid: "CodeChunk_valid (chunk (sample_result p 1 10 sc))"
  by (simp add: CodeChunk_valid_def sample_result_def)

theorem search_score_invariant_witness:
  "cache_ok sample_store
   \<and> resolve_mode (mode (sample_args (Some [1]) None None))
        (query_text (sample_args (Some [1]) None None))
        (query_vector (sample_args (Some [1]) None None)) = Inr ''vector''
   \<and> sample_engine (rows sample_store) (VectorQuery [1])
        (limit (sample_args (Some [1]) None None))
        (apply_filters (sample_args (Some [1]) None None))
       = Inr [\<lparr>hit_row = chunk (sample_result ''a.py'' 1 10 (9 / 10)), hit_distance = Some 0,
               hit_score = Some (1 / 2)\<rparr>]
   \<and> search sample_engine sample_store (sample_args (Some [1]) None None) =
       (Inr [\<lparr>chunk = chunk (sample_result ''a.py'' 1 10 (9 / 10)), score = 1\<rparr>], sample_store)
   \<and> (0::real) \<le> 1 \<and> \<not> (1::real) < min_score (sample_args (Some [1]) None None)
   \<and> convert_result
         \<lparr>hit_row = chunk (sample_result ''a.py'' 1 10 (9 / 10)), hit_distance = Some 3,
          hit_score = None\<rparr> ''distance''
       = Inr \<lparr>chunk = chunk (sample_result ''a.py'' 1 10 (9 / 10)), score = 1 / 4\<rparr>
   \<and> uncached_search sample_engine sample_store ''hybrid''
         (sample_args None (Some ''foo'') None)
       = Inr [\<lparr>chunk = chunk (sample_result ''a.py'' 1 10 (9 / 10)), score = 1 / 2\<rparr>]"
proof -
  let ?c = "chunk (sample_result ''a.py'' 1 10 (9 / 10))"
  let ?a = "sample_args (Some [1]) None None"
  let ?b = "sample_args None (Some ''foo'') None"
  let ?h = "\<lparr>hit_row = ?c, hit_distance = Some 3, hit_score = None\<rparr>"
  let ?g = "\<lparr>hit_row = ?c, hit_distance = Some 0, hit_score = Some (1 / 2)\<rparr>"
  have rm: "resolve_mode (mode ?a) (query_text ?a) (query_vector ?a) = Inr ''vector''"
    by (simp add: resolve_mode_def sample_args_def)
  have qa: "query_vector ?a = Some [1]" "min_score ?a = 0" "min_score ?b = 0"
    "query_text ?b = Some ''foo''"
    by (simp_all add: sample_args_def)
  have ea: "sample_engine (rows sample_store) (VectorQuery [1]) (limit ?a) (apply_filters ?a)
      = Inr [?g]"
    by (simp add: sample_engine_def sample_store_def sample_args_def)
  have eb: "sample_engine (rows sample_store) (HybridQuery ''foo'') (limit ?b)
      (apply_filters ?b) = Inr [?g]"
    by (simp add: sample_engine_def sample_store_def sample_args_def)
  note cv = sample_chunk_valid [of "''a.py''" "9 / 10"]
  note inst = search_score_invariant [where st = sample_store and eng = sample_engine
      and a = ?a and results = "[\<lparr>chunk = ?c, score = 1\<rparr>]" and st' = sample_store
      and h' = ?h and d' = 3 and qv = "[1]" and vhits = "[?g]" and h = ?h
      and r = "\<lparr>chunk = ?c, score = 1 / 4\<rparr>" and rs = "[]" and m = 0 and raw = "[]"
      and qt = "''foo''" and fhits = "[]" and hhits = "[]"]
  note instb = search_score_invariant [where st = sample_store and eng = sample_engine
      and a = ?b and results = "[]" and st' = sample_store
      and h' = ?h and d' = 3 and qv = "[1]" and vhits = "[]" and h = ?h
      and r = "\<lparr>chunk = ?c, score = 1 / 4\<rparr>" and rs = "[]" and m = 0 and raw = "[]"
      and qt = "''foo''" and fhits = "[]" and hhits = "[?g]"]
  have s: "search sample_engine sample_store ?a = (Inr [\<lparr>chunk = ?c, score = 1\<rparr>], sample_store)"
    using inst rm qa ea cv by (elim conjE) simp
  have i1: "cache_ok sample_store \<and> search sample_engine sample_store ?a =
        (Inr [\<lparr>chunk = ?c, score = 1\<rparr>], sample_store) \<longrightarrow>
      (\<forall>r\<in>set [\<lparr>chunk = ?c, score = 1\<rparr>]. 0 \<le> score r \<and> score r \<le> 1
          \<and> \<not> score r < min_score ?a)
      \<and> cache_ok sample_store"
    using inst by (elim conjE)
  have i3: "hit_distance ?h = Some 3 \<and> (0::real) \<le> 3 \<and> CodeChunk_valid (hit_row ?h) \<longrightarrow>
        convert_result ?h ''distance'' = Inr \<lparr>chunk = hit_row ?h, score = 1 / (1 + 3)\<rparr>
        \<and> (0::real) < 1 / (1 + 3) \<and> (1::real) / (1 + 3) \<le> 1"
    using inst by (elim conjE)
  have c1: "\<not> (1::real) < min_score ?a"
    using i1 sample_store_ok s by simp
  have c3: "convert_result ?h ''distance'' = Inr \<lparr>chunk = ?c, score = 1 / 4\<rparr>"
    using i3 cv by simp
  have c11: "uncached_search sample_engine sample_store ''hybrid'' ?b
      = Inr [\<lparr>chunk = ?c, score = 1 / 2\<rparr>]"
    using instb qa eb cv by (elim conjE) simp
  show ?thesis
    using sample_store_ok rm ea s c1 c3 c11 by simp
qed

text \<open>
  Claim C10.  A \<open>SearchResult\<close> is constructed only with a score in \<open>[0, 1]\<close>; outside it
  the construction raises a validation error.  So every result list that
  \<open>_convert_results\<close> returns, in every score type, has scores in \<open>[0, 1]\<close>, a keyword or
  hybrid relevance outside \<open>[0, 1]\<close> makes \<open>_convert_results\<close> raise the validation error
  instead of returning the score, and every result \<open>search\<close> returns has a score in
  \<open>[0, 1]\<close>.
\<close>

theorem search_result_score_validated:
  "(new_SearchResult c s = Inr r \<longrightarrow> 0 \<le> s \<and> s \<le> 1 \<and> r = \<lparr>chunk = c, score = s\<rparr>)
   \<and> (s' < 0 \<or> 1 < s' \<longrightarrow> new_SearchResult c s' = Inl ValidationError)
   \<and> (convert_results hs sty = Inr rs \<longrightarrow> (\<forall>r\<in>set rs. 0 \<le> score r \<and> score r \<le> 1))
   \<and> ((sty' = ''fts'' \<or> sty' = ''hybrid'') \<and> h \<in> set hs' \<and> hit_score h = Some sc
        \<and> (sc < 0 \<or> 1 < sc)
      \<longrightarrow> convert_results hs' sty' = Inl ValidationError)
   \<and> (cache_ok st \<and> search eng st a = (Inr results, st') \<longrightarrow>
        (\<forall>r\<in>set results. 0 \<le> score r \<and> score r \<le> 1))"
proof -
  have 5: "cache_ok st \<and> search eng st a = (Inr results, st') \<longrightarrow>
        (\<forall>r\<in>set results. 0 \<le> score r \<and> score r \<le> 1)"
    using search_ok [of st eng a "Inr results" st'] by auto
  show ?thesis
    using new_SearchResult_Inr [of c s r] new_SearchResult_Inl [of s' c]
      convert_results_range [of hs sty rs]
      convert_results_out_of_range [of sty' h hs' sc] 5
    by blast
qed

theorem search_result_score_validated_witness:
  "new_SearchResult (chunk (sample_result ''a.py'' 1 10 (9 / 10))) (1 / 2)
     = Inr \<lparr>chunk = chunk (sample_result ''a.py'' 1 10 (9 / 10)), score = 1 / 2\<rparr>
   \<and> (1::real) < 7 / 2
   \<and> new_SearchResult (chunk (sample_result ''a.py'' 1 10 (9 / 10))) (7 / 2)
       = Inl ValidationError
   \<and> convert_results
        [\<lparr>hit_row = chunk (sample_result ''a.py'' 1 10 (9 / 10)), hit_distance = None,
          hit_score = Some (7 / 2)\<rparr>] ''fts''
       = Inl ValidationError
   \<and> search_fts sample_engine [chunk (sample_result ''a.py'' 1 10 (9 / 10))] ''foo''
        (sample_args None (Some ''foo'') None)
       = Inr [\<lparr>chunk = chunk (sample_result ''a.py'' 1 10 (9 / 10)), score = 1 / 2\<rparr>]"
proof -
  let ?c = "chunk (sample_result ''a.py'' 1 10 (9 / 10))"
  let ?h = "\<lparr>hit_row = ?c, hit_distance = None, hit_score = Some (7 / 2)\<rparr>"
  note inst = search_result_score_validated [where c = ?c and s = "1 / 2"
      and r = "\<lparr>chunk = ?c, score = 1 / 2\<rparr>" and s' = "7 / 2" and sty' = "''fts''"
      and h = ?h and hs' = "[?h]" and sc = "7 / 2"]
  have i2: "(7 / 2 :: real) < 0 \<or> (1::real) < 7 / 2 \<longrightarrow>
      new_SearchResult ?c (7 / 2) = Inl ValidationError"
    using inst by blast
  have i4: "(''fts'' = ''fts'' \<or> ''fts'' = ''hybrid'') \<and> ?h \<in> set [?h]
        \<and> hit_score ?h = Some (7 / 2) \<and> ((7 / 2 :: real) < 0 \<or> (1::real) < 7 / 2)
      \<longrightarrow> convert_results [?h] ''fts'' = Inl ValidationError"
    using inst by blast
  have c2: "new_SearchResult ?c (7 / 2) = Inl ValidationError" using i2 by simp
  have c4: "convert_results [?h] ''fts'' = Inl ValidationError" using i4 by simp
  have c0: "new_SearchResult ?c (1 / 2) = Inr \<lparr>chunk = ?c, score = 1 / 2\<rparr>"
    by (simp add: new_SearchResult_def)
  have c5: "search_fts sample_engine [?c] ''foo'' (sample_args None (Some ''foo'') None)
       = Inr [\<lparr>chunk = ?c, score = 1 / 2\<rparr>]"
    using sample_chunk_valid [of "''a.py''" "9 / 10"]
    by (simp add: search_fts_def sample_engine_def sample_args_def convert_result_def
        new_CodeChunk_def new_SearchResult_def)
  show ?thesis using c0 c2 c4 c5 by simp
qed


text \<open>
  Claim C7, amended.  An explicit mode is used as it is.  Without one the mode is
  inferred from the inputs that are non-empty: text and vector give hybrid, only a vector
  gives vector, only a text gives fts, and when neither is non-empty the call fails with
  a \<open>ValueError\<close>; an inferred mode always passes the validation.  The validation of
  the inputs fails, with a \<open>ValueError\<close>, exactly when the mode is vector and the vector
  is \<open>None\<close>, or the mode is fts or hybrid and the text is \<open>None\<close>.  Either failure is
  the result of \<open>search\<close> and leaves the store as it is.  An explicit mode that is none
  of the three also makes \<open>search\<close> fail with a \<open>ValueError\<close>, whatever inputs are given.
\<close>

theorem search_mode_resolution:
  "resolve_mode (Some m) qt qv = Inr m
   \<and> (truthy qt \<and> truthy qv \<longrightarrow> resolve_mode None qt qv = Inr ''hybrid'')
   \<and> (\<not> truthy qt \<and> truthy qv \<longrightarrow> resolve_mode None qt qv = Inr ''vector'')
   \<and> (truthy qt \<and> \<not> truthy qv \<longrightarrow> resolve_mode None qt qv = Inr ''fts'')
   \<and> ((\<exists>e. resolve_mode None qt qv = Inl e) \<longleftrightarrow> \<not> truthy qt \<and> \<not> truthy qv)
   \<and> (resolve_mode None qt qv = Inr m1 \<longrightarrow> validate_inputs m1 qt qv = Inr ())
   \<and> ((\<exists>e. validate_inputs m2 qt qv = Inl e) \<longleftrightarrow>
        (m2 = ''vector'' \<and> qv = None) \<or> ((m2 = ''fts'' \<or> m2 = ''hybrid'') \<and> qt = None))
   \<and> (resolve_mode md qt qv = Inl e1 \<longrightarrow> (\<exists>msg. e1 = ValueError msg))
   \<and> (validate_inputs m2 qt qv = Inl e2 \<longrightarrow> (\<exists>msg. e2 = ValueError msg))
   \<and> (resolve_mode (mode a) (query_text a) (query_vector a) = Inl e3 \<longrightarrow>
        search eng st a = (Inl e3, st))
   \<and> (resolve_mode (mode a) (query_text a) (query_vector a) = Inr m3
        \<and> validate_inputs m3 (query_text a) (query_vector a) = Inl e4 \<longrightarrow>
        search eng st a = (Inl e4, st))
   \<and> (cache_ok st \<and> mode a = Some m4 \<and> m4 \<noteq> ''vector'' \<and> m4 \<noteq> ''fts'' \<and> m4 \<noteq> ''hybrid''
        \<longrightarrow> (\<exists>msg. search eng st a = (Inl (ValueError msg), st)))"
proof -
  have 1: "resolve_mode (Some m) qt qv = Inr m" by (simp add: resolve_mode_def)
  have 2: "truthy qt \<and> truthy qv \<longrightarrow> resolve_mode None qt qv = Inr ''hybrid''"
    by (simp add: resolve_mode_def)
  have 3: "\<not> truthy qt \<and> truthy qv \<longrightarrow> resolve_mode None qt qv = Inr ''vector''"
    by (simp add: resolve_mode_def)
  have 4: "truthy qt \<and> \<not> truthy qv \<longrightarrow> resolve_mode None qt qv = Inr ''fts''"
    by (simp add: resolve_mode_def)
  have 5: "(\<exists>e. resolve_mode None qt qv = Inl e) \<longleftrightarrow> \<not> truthy qt \<and> \<not> truthy qv"
    by (simp add: resolve_mode_def)
  have 6: "resolve_mode None qt qv = Inr m1 \<longrightarrow> validate_inputs m1 qt qv = Inr ()"
    using resolve_mode_valid by blast
  have 7: "(\<exists>e. validate_inputs m2 qt qv = Inl e) \<longleftrightarrow>
        (m2 = ''vector'' \<and> qv = None) \<or> ((m2 = ''fts'' \<or> m2 = ''hybrid'') \<and> qt = None)"
    by (simp add: validate_inputs_def)
  have 8: "resolve_mode md qt qv = Inl e1 \<longrightarrow> (\<exists>msg. e1 = ValueError msg)"
    by (auto simp: resolve_mode_def split: option.splits if_splits)
  have 9: "validate_inputs m2 qt qv = Inl e2 \<longrightarrow> (\<exists>msg. e2 = ValueError msg)"
    by (auto simp: validate_inputs_def split: if_splits)
  have 10: "resolve_mode (mode a) (query_text a) (query_vector a) = Inl e3 \<longrightarrow>
        search eng st a = (Inl e3, st)"
    by (simp add: search_def)
  have 11: "resolve_mode (mode a) (query_text a) (query_vector a) = Inr m3
        \<and> validate_inputs m3 (query_text a) (query_vector a) = Inl e4 \<longrightarrow>
        search eng st a = (Inl e4, st)"
    by (simp add: search_def)
  have 12: "cache_ok st \<and> mode a = Some m4 \<and> m4 \<noteq> ''vector'' \<and> m4 \<noteq> ''fts'' \<and> m4 \<noteq> ''hybrid''
        \<longrightarrow> (\<exists>msg. search eng st a = (Inl (ValueError msg), st))"
    using search_unknown_mode [of st a m4 eng] by blast
  show ?thesis
    using 1 2 3 4 5 6 7 8 9 10 11 12 by blast
qed

theorem search_mode_resolution_witness:
  "resolve_mode None (Some ''foo'') (Some [1]) = Inr ''hybrid''
   \<and> resolve_mode None None (Some [1]) = Inr ''vector''
   \<and> resolve_mode None (Some ''foo'') None = Inr ''fts''
   \<and> validate_inputs ''fts'' (Some ''foo'') None = Inr ()
   \<and> search sample_engine sample_store (sample_args None None None)
       = (Inl (ValueError ''Either query_text or query_vector must be provided''), sample_store)
   \<and> search sample_engine sample_store (sample_args None (Some ''foo'') (Some ''vector''))
       = (Inl (ValueError ''query_vector required for vector mode''), sample_store)
   \<and> cache_ok sample_store
   \<and> (\<exists>msg. search sample_engine sample_store
               (sample_args (Some [1]) (Some ''foo'') (Some ''semantic''))
             = (Inl (ValueError msg), sample_store))"
proof -
  let ?e5 = "ValueError ''Either query_text or query_vector must be provided''"
  let ?e6 = "ValueError ''query_vector required for vector mode''"
  let ?a5 = "sample_args None None None"
  let ?a6 = "sample_args None (Some ''foo'') (Some ''vector'')"
  let ?a7 = "sample_args (Some [1]) (Some ''foo'') (Some ''semantic'')"
  have t: "truthy (Some ''foo'')" "truthy (Some [1::real])" "\<not> truthy (None :: string option)"
    "\<not> truthy (None :: real list option)"
    by simp_all
  have c1: "resolve_mode None (Some ''foo'') (Some [1]) = Inr ''hybrid''"
    using search_mode_resolution [where qt = "Some ''foo''" and qv = "Some [1]"
        and m = "''x''" and ?m1.0 = "''x''" and ?m2.0 = "''x''" and md = None
        and ?e1.0 = ?e5 and ?e2.0 = ?e5 and a = ?a5 and eng = sample_engine
        and st = sample_store and ?e3.0 = ?e5 and ?m3.0 = "''x''" and ?e4.0 = ?e5
        and ?m4.0 = "''x''"] t
    by (elim conjE) simp
  have c2: "resolve_mode None None (Some [1]) = Inr ''vector''"
    using search_mode_resolution [where qt = None and qv = "Some [1]"
        and m = "''x''" and ?m1.0 = "''x''" and ?m2.0 = "''x''" and md = None
        and ?e1.0 = ?e5 and ?e2.0 = ?e5 and a = ?a5 and eng = sample_engine
        and st = sample_store and ?e3.0 = ?e5 and ?m3.0 = "''x''" and ?e4.0 = ?e5
        and ?m4.0 = "''x''"] t
    by (elim conjE) simp
  have c34: "resolve_mode None (Some ''foo'') None = Inr ''fts''
      \<and> validate_inputs ''fts'' (Some ''foo'') None = Inr ()"
    using search_mode_resolution [where qt = "Some ''foo''" and qv = None
        and m = "''x''" and ?m1.0 = "''fts''" and ?m2.0 = "''x''" and md = None
        and ?e1.0 = ?e5 and ?e2.0 = ?e5 and a = ?a5 and eng = sample_engine
        and st = sample_store and ?e3.0 = ?e5 and ?m3.0 = "''x''" and ?e4.0 = ?e5
        and ?m4.0 = "''x''"] t
    by (elim conjE) simp
  have r5: "resolve_mode (mode ?a5) (query_text ?a5) (query_vector ?a5) = Inl ?e5"
    by (simp add: resolve_mode_def sample_args_def)
  have r6: "resolve_mode (mode ?a6) (query_text ?a6) (query_vector ?a6) = Inr ''vector''"
    "validate_inputs ''vector'' (query_text ?a6) (query_vector ?a6) = Inl ?e6"
    by (simp_all add: resolve_mode_def validate_inputs_def sample_args_def)
  have r7: "mode ?a7 = Some ''semantic''" by (simp add: sample_args_def)
  have c5: "search sample_engine sample_store ?a5 = (Inl ?e5, sample_store)"
    using search_mode_resolution [where qt = None and qv = None
        and m = "''x''" and ?m1.0 = "''x''" and ?m2.0 = "''x''" and md = None
        and ?e1.0 = ?e5 and ?e2.0 = ?e5 and a = ?a5 and eng = sample_engine
        and st = sample_store and ?e3.0 = ?e5 and ?m3.0 = "''x''" and ?e4.0 = ?e5
        and ?m4.0 = "''x''"] r5
    by (elim conjE) simp
  have c6: "search sample_engine sample_store ?a6 = (Inl ?e6, sample_store)"
    using search_mode_resolution [where qt = None and qv = None
        and m = "''x''" and ?m1.0 = "''x''" and ?m2.0 = "''x''" and md = None
        and ?e1.0 = ?e5 and ?e2.0 = ?e5 and a = ?a6 and eng = sample_engine
        and st = sample_store and ?e3.0 = ?e5 and ?m3.0 = "''vector''" and ?e4.0 = ?e6
        and ?m4.0 = "''x''"] r6
    by (elim conjE) simp
  have c7: "\<exists>msg. search sample_engine sample_store ?a7 = (Inl (ValueError msg), sample_store)"
    using search_mode_resolution [where qt = None and qv = None
        and m = "''x''" and ?m1.0 = "''x''" and ?m2.0 = "''x''" and md = None
        and ?e1.0 = ?e5 and ?e2.0 = ?e5 and a = ?a7 and eng = sample_engine
        and st = sample_store and ?e3.0 = ?e5 and ?m3.0 = "''x''" and ?e4.0 = ?e5
        and ?m4.0 = "''semantic''"] r7 sample_store_ok
    by (elim conjE) simp
  show ?thesis using c1 c2 c34 c5 c6 c7 sample_store_ok by simp
qed

text \<open>
  Claim C7, as stated, fails.  An empty text is accepted by the validation of an
  explicit fts mode but counts as absent for the inference: with no mode and no vector
  the call is rejected although a text was passed, and with a vector the mode is vector,
  not hybrid.  And an unknown explicit mode is rejected with a \<open>ValueError\<close> although
  text and vector are both given.
\<close>

theorem search_arguments_counterexample:
  "validate_inputs ''fts'' (Some []) None = Inr ()
   \<and> resolve_mode None (Some []) None
       = Inl (ValueError ''Either query_text or query_vector must be provided'')
   \<and> resolve_mode None (Some []) (Some [1]) = Inr ''vector''
   \<and> search sample_engine sample_store
        (sample_args (Some [1]) (Some ''foo'') (Some ''semantic''))
       = (Inl (ValueError (''Invalid search mode: semantic. Use '' @ [CHR 0x27] @ ''vector''
                           @ [CHR 0x27] @ '', '' @ [CHR 0x27] @ ''fts'' @ [CHR 0x27] @ '', or ''
                           @ [CHR 0x27] @ ''hybrid'' @ [CHR 0x27])),
          sample_store)"
  by (simp add: validate_inputs_def resolve_mode_def search_def sample_args_def sample_store_def
      cached_search_def make_cache_args_def hashable_def uncached_search_def route_search_def)

lemma sample_where_path:
  "CHR 0x27 \<notin> set p \<Longrightarrow>
   sample_where (''path = '' @ [CHR 0x27] @ p @ [CHR 0x27]) = Inr (\<lambda>c. path c = p)"
  by (subst sample_where_def) simp

lemma selects_path_sample: "CHR 0x27 \<notin> set p \<Longrightarrow> selects_path sample_where p"
  unfolding selects_path_def by (rule sample_where_path)

lemma sample_where_quote:
  "sample_where (''path = '' @ [CHR 0x27] @ ''it'' @ [CHR 0x27] @ ''s.txt'' @ [CHR 0x27])
     = Inl (ValueError ''invalid predicate'')"
  by (subst sample_where_def) simp

lemma delete_keeps_cache:
  "cache (snd (delete_by_path wh st p)) = cache st"
  "cache (snd (delete_by_branch wh st b)) = cache st"
  by (simp_all add: delete_by_path_def delete_by_branch_def Let_def split: sum.splits)

lemma add_chunks_clears_cache:
  "chunks \<noteq> [] \<Longrightarrow> cache_enabled st \<Longrightarrow> cache (add_chunks st chunks) = []"
  by (simp add: add_chunks_def clear_cache_def)

text \<open>
  Claim C2 does not hold of the code: \<open>add_chunks\<close> clears the query cache, but
  \<open>delete_by_path\<close> and \<open>delete_by_branch\<close> do not.  A keyword search for \<open>foo\<close> on a
  store with one chunk of \<open>a.py\<close> returns that chunk and caches the result; after
  \<open>delete_by_path("a.py")\<close> the table is empty, yet the same search still returns the
  deleted chunk from the cache, while the search with \<open>use_cache=False\<close> returns nothing.
\<close>

theorem delete_by_path_stale_cache:
  "fst (search sample_engine sample_store (sample_args None (Some ''foo'') None))
     = Inr [\<lparr>chunk = chunk (sample_result ''a.py'' 1 10 (9 / 10)), score = 1 / 2\<rparr>]
   \<and> rows (snd (delete_by_path sample_where
        (snd (search sample_engine sample_store (sample_args None (Some ''foo'') None)))
        ''a.py'')) = []
   \<and> fst (search sample_engine
        (snd (delete_by_path sample_where
           (snd (search sample_engine sample_store (sample_args None (Some ''foo'') None)))
           ''a.py''))
        (sample_args None (Some ''foo'') None))
     = Inr [\<lparr>chunk = chunk (sample_result ''a.py'' 1 10 (9 / 10)), score = 1 / 2\<rparr>]
   \<and> fst (search sample_engine
        (snd (delete_by_path sample_where
           (snd (search sample_engine sample_store (sample_args None (Some ''foo'') None)))
           ''a.py''))
        ((sample_args None (Some ''foo'') None)\<lparr>use_cache := False\<rparr>))
     = Inr []"
proof -
  let ?c = "chunk (sample_result ''a.py'' 1 10 (9 / 10))"
  let ?r = "\<lparr>chunk = ?c, score = 1 / 2\<rparr>"
  let ?a = "sample_args None (Some ''foo'') None"
  let ?k = "make_cache_args ''fts'' ?a"
  have fts: "search_fts sample_engine [?c] ''foo'' ?a = Inr [?r]"
    using sample_chunk_valid [of "''a.py''" "9 / 10"]
    by (simp add: search_fts_def sample_engine_def sample_args_def convert_result_def
        new_CodeChunk_def new_SearchResult_def)
  have fts0: "search_fts sample_engine [] ''foo'' (?a\<lparr>use_cache := False\<rparr>) = Inr []"
    by (simp add: search_fts_def sample_engine_def sample_args_def)
  have hk: "hashable ?k" by (simp add: hashable_def make_cache_args_def sample_args_def)
  have rm: "resolve_mode (mode ?a) (query_text ?a) (query_vector ?a) = Inr ''fts''"
    "validate_inputs ''fts'' (query_text ?a) (query_vector ?a) = Inr ()"
    "use_cache ?a" "query_text ?a = Some ''foo''" "min_score ?a = 0"
    by (simp_all add: resolve_mode_def validate_inputs_def sample_args_def)
  have pf: "post_filter [?r] 0 = [?r]" by (simp add: post_filter_def)
  have s1: "search sample_engine sample_store ?a =
      (Inr [?r], sample_store\<lparr>cache := [(?k, [?r])]\<rparr>)"
    using fts hk rm pf
    by (simp add: search_def cached_search_def execute_search_impl_def route_search_def
        sample_store_def Let_def)
  let ?st2 = "snd (delete_by_path sample_where (sample_store\<lparr>cache := [(?k, [?r])]\<rparr>) ''a.py'')"
  have st2: "?st2 = \<lparr>rows = [], cache = [(?k, [?r])], cache_enabled = True, cache_size = 100\<rparr>"
    using sample_where_path [of "''a.py''"]
    by (simp add: delete_by_path_def sample_store_def sample_result_def Let_def)
  have s2: "fst (search sample_engine ?st2 ?a) = Inr [?r]"
    unfolding st2 using hk rm
    by (simp add: search_def cached_search_def Let_def)
  have s3: "fst (search sample_engine ?st2 (?a\<lparr>use_cache := False\<rparr>)) = Inr []"
    unfolding st2 using fts0
    by (simp add: search_def resolve_mode_def validate_inputs_def sample_args_def
        uncached_search_def route_search_def post_filter_def)
  show ?thesis
    unfolding s1 using s2 s3 st2 by simp
qed

section \<open>Incremental indexing\<close>

lemma delete_by_path_selects:
  "selects_path wh p \<Longrightarrow>
   delete_by_path wh st p =
     (Inr (int (length (rows st)) - int (length (filter (\<lambda>c. path c \<noteq> p) (rows st)))),
      st\<lparr>rows := filter (\<lambda>c. path c \<noteq> p) (rows st)\<rparr>)"
  by (simp add: delete_by_path_def selects_path_def Let_def)

lemma get_file_hash_selects:
  "selects_path wh p \<Longrightarrow>
   get_file_hash wh st p =
     (case filter (\<lambda>c. path c = p) (rows st) of [] \<Rightarrow> None | c # cs \<Rightarrow> Some (file_hash c))"
  by (simp add: get_file_hash_def selects_path_def split: list.splits)

lemma index_file_selects:
  assumes "selects_path wh p"
  shows "index_file wh env st p =
     (case files env p of
        Readable content \<Rightarrow>
          if strip content = [] then (Inr 0, st)
          else
            (let fhash = compute_file_hash env p;
                 st1 = snd (delete_by_path wh st p);
                 lang = detect_language env p
             in case chunker env lang content of
                  Inl e \<Rightarrow> (Inl e, st1)
                | Inr chunks_data \<Rightarrow>
                    if chunks_data = [] then (Inr 0, st1)
                    else
                      (case embed_batch env (map fst chunks_data) of
                         Inl e \<Rightarrow> (Inl e, st1)
                       | Inr embeddings \<Rightarrow>
                           (case build_chunks env p lang fhash chunks_data embeddings of
                              Inl e \<Rightarrow> (Inl e, st1)
                            | Inr chunks \<Rightarrow>
                                (Inr (int (length chunks)), add_chunks st1 chunks))))
      | _ \<Rightarrow> (Inr 0, st))"
  unfolding index_file_def delete_by_path_selects [OF assms]
  by (simp add: Let_def split: file_state.splits)

lemma index_file_raises:
  assumes "files env p = Readable content" "strip content \<noteq> []"
    and "wh (''path = '' @ [CHR 0x27] @ p @ [CHR 0x27]) = Inl e"
  shows "index_file wh env st p = (Inl e, st)"
  using assms by (simp add: index_file_def delete_by_path_def Let_def)

lemma build_chunks_Inr_iff:
  "build_chunks env p lang h cd em = Inr cs \<longleftrightarrow>
     (\<forall>x\<in>set (zip cd em). CodeChunk_valid (chunk_fields env p lang h x))
     \<and> cs = map (chunk_fields env p lang h) (zip cd em)"
proof (induction env p lang h cd em arbitrary: cs rule: build_chunks.induct)
  case (1 env rel_path lang fhash text_m metadata chunks_data embedding embeddings)
  let ?x = "((text_m, metadata), embedding)"
  show ?case
  proof (cases "CodeChunk_valid (chunk_fields env rel_path lang fhash ?x)")
    case False
    then show ?thesis by (simp add: new_CodeChunk_def)
  next
    case True
    then have n: "new_CodeChunk (chunk_fields env rel_path lang fhash ?x)
        = Inr (chunk_fields env rel_path lang fhash ?x)"
      by (simp add: new_CodeChunk_def)
    show ?thesis
    proof (cases "build_chunks env rel_path lang fhash chunks_data embeddings")
      case (Inl e)
      with "1.IH" [OF n] have "\<not> (\<forall>x\<in>set (zip chunks_data embeddings).
          CodeChunk_valid (chunk_fields env rel_path lang fhash x))"
        by auto
      with n Inl show ?thesis by auto
    next
      case (Inr cs')
      with "1.IH" [OF n, of cs'] n True show ?thesis by auto
    qed
  qed
qed auto

lemma build_chunks_props:
  "build_chunks env p lang h cd em = Inr cs \<Longrightarrow> \<forall>c\<in>set cs. path c = p \<and> file_hash c = h"
  by (auto simp: build_chunks_Inr_iff chunk_fields_def)

lemma rows_delete_by_path:
  "selects_path wh p \<Longrightarrow>
   rows (snd (delete_by_path wh st p)) = filter (\<lambda>c. path c \<noteq> p) (rows st)"
  by (simp add: delete_by_path_selects)

lemma delete_by_path_none:
  "selects_path wh p \<Longrightarrow> \<forall>c\<in>set (rows st). path c \<noteq> p \<Longrightarrow>
   snd (delete_by_path wh st p) = st"
  by (simp add: delete_by_path_selects)

lemma delete_by_path_idem:
  "selects_path wh p \<Longrightarrow>
   snd (delete_by_path wh (snd (delete_by_path wh st p)) p) = snd (delete_by_path wh st p)"
  by (rule delete_by_path_none) (simp_all add: rows_delete_by_path)

lemma get_file_hash_none:
  "selects_path wh p \<Longrightarrow> \<forall>c\<in>set (rows st). path c \<noteq> p \<Longrightarrow> get_file_hash wh st p = None"
  by (simp add: get_file_hash_selects filter_empty_conv [THEN iffD2])

lemma rows_add_chunks: "rows (add_chunks st cs) = rows st @ cs"
  by (simp add: add_chunks_def clear_cache_def)

lemma get_file_hash_added:
  assumes sp: "selects_path wh p"
    and old: "\<forall>c\<in>set (rows st). path c \<noteq> p" and ne: "cs \<noteq> []"
    and new: "\<forall>c\<in>set cs. path c = p \<and> file_hash c = h"
  shows "get_file_hash wh (add_chunks st cs) p = Some h"
proof -
  have f1: "filter (\<lambda>c. path c = p) (rows st) = []"
    using old by (simp add: filter_empty_conv)
  have f2: "filter (\<lambda>c. path c = p) cs = cs"
    using new by (simp add: filter_id_conv)
  from ne obtain c cs' where cs: "cs = c # cs'" by (cases cs) auto
  with new have "file_hash c = h" by simp
  with f1 f2 cs show ?thesis
    by (simp add: get_file_hash_selects [OF sp] rows_add_chunks)
qed

lemma index_file_cases:
  assumes sp: "selects_path wh p"
    and rd: "files env p = Readable content" and nb: "strip content \<noteq> []"
  shows "(\<exists>r. index_file wh env st p = (r, snd (delete_by_path wh st p)))
     \<or> (\<exists>cs. cs \<noteq> [] \<and> (\<forall>c\<in>set cs. path c = p \<and> file_hash c = compute_file_hash env p)
            \<and> index_file wh env st p =
                (Inr (int (length cs)), add_chunks (snd (delete_by_path wh st p)) cs))"
proof -
  let ?D = "snd (delete_by_path wh st p)"
  let ?lang = "detect_language env p"
  let ?h = "compute_file_hash env p"
  note idef = index_file_selects [OF sp]
  show ?thesis
  proof (cases "chunker env ?lang content")
    case (Inl e)
    with rd nb show ?thesis by (simp add: idef Let_def)
  next
    case (Inr chunks_data)
    show ?thesis
    proof (cases "chunks_data = []")
      case True
      with rd nb Inr show ?thesis by (simp add: idef Let_def)
    next
      case ne: False
      show ?thesis
      proof (cases "embed_batch env (map fst chunks_data)")
        case (Inl e)
        with rd nb Inr ne show ?thesis by (simp add: idef Let_def)
      next
        case em: (Inr embeddings)
        show ?thesis
        proof (cases "build_chunks env p ?lang ?h chunks_data embeddings")
          case (Inl e)
          with rd nb Inr ne em show ?thesis by (simp add: idef Let_def)
        next
          case bc: (Inr cs)
          with rd nb Inr ne em have r: "index_file wh env st p =
              (Inr (int (length cs)), add_chunks ?D cs)"
            by (simp add: idef Let_def)
          show ?thesis
          proof (cases "cs = []")
            case True
            with r show ?thesis by (simp add: add_chunks_def)
          next
            case False
            with r build_chunks_props [OF bc] show ?thesis by blast
          qed
        qed
      qed
    qed
  qed
qed

lemma index_file_after_delete:
  assumes "selects_path wh p" "files env p = Readable content" "strip content \<noteq> []"
  shows "index_file wh env (snd (delete_by_path wh st p)) p = index_file wh env st p"
  using assms by (simp add: index_file_selects Let_def delete_by_path_idem)

lemma index_file_blank:
  assumes "files env p = Readable content" "strip content = []"
  shows "index_file wh env st p = (Inr 0, st)"
  using assms by (simp add: index_file_def)

lemma index_one_not_indexable:
  "\<not> should_index_file env p \<Longrightarrow>
   index_one wh env force ((i, t, s), st) p = ((i, t, s + 1), st)"
  by (simp add: index_one_def)

lemma index_one_unchanged:
  "should_index_file env p \<Longrightarrow> \<not> force \<Longrightarrow>
   get_file_hash wh st p = Some (compute_file_hash env p) \<Longrightarrow>
   index_one wh env force ((i, t, s), st) p = ((i, t, s + 1), st)"
  by (simp add: index_one_def)

lemma snd_index_one:
  assumes "should_index_file env p"
    and "force \<or> get_file_hash wh st p \<noteq> Some (compute_file_hash env p)"
  shows "snd (index_one wh env force (cnt, st) p) = snd (index_file wh env st p)"
proof -
  obtain i t s where cnt: "cnt = (i, t, s)" by (cases cnt) auto
  obtain r st' where r: "index_file wh env st p = (r, st')" by (cases "index_file wh env st p")
  show ?thesis
    using assms by (cases r) (auto simp: index_one_def cnt r)
qed

lemma snd_index_one_skip:
  assumes "\<not> should_index_file env p
     \<or> (\<not> force \<and> get_file_hash wh st p = Some (compute_file_hash env p))"
  shows "snd (index_one wh env force (cnt, st) p) = st"
proof -
  obtain i t s where cnt: "cnt = (i, t, s)" by (cases cnt) auto
  show ?thesis using assms by (auto simp: index_one_def cnt)
qed

lemma should_index_readable:
  "should_index_file env p \<Longrightarrow> \<exists>content. files env p = Readable content"
  by (cases "files env p") (simp_all add: should_index_file_def)

lemma index_one_roundtrip:
  assumes sp: "selects_path wh p"
  shows "snd (index_one wh env False (cnt', snd (index_one wh env force (cnt, st) p)) p)
     = snd (index_one wh env force (cnt, st) p)"
proof (cases "\<not> should_index_file env p
     \<or> (\<not> force \<and> get_file_hash wh st p = Some (compute_file_hash env p))")
  case True
  then have 1: "snd (index_one wh env force (cnt, st) p) = st" by (rule snd_index_one_skip)
  from True have "\<not> should_index_file env p
     \<or> (\<not> False \<and> get_file_hash wh st p = Some (compute_file_hash env p))
     \<or> (should_index_file env p \<and> force)"
    by blast
  then show ?thesis
  proof (elim disjE)
    assume "\<not> should_index_file env p"
    then show ?thesis unfolding 1 by (simp add: snd_index_one_skip)
  next
    assume "\<not> False \<and> get_file_hash wh st p = Some (compute_file_hash env p)"
    then show ?thesis unfolding 1 by (simp add: snd_index_one_skip)
  next
    assume "should_index_file env p \<and> force"
    with True show ?thesis by simp
  qed
next
  case False
  then have si: "should_index_file env p"
    and go: "force \<or> get_file_hash wh st p \<noteq> Some (compute_file_hash env p)"
    by auto
  have 1: "snd (index_one wh env force (cnt, st) p) = snd (index_file wh env st p)"
    using si go by (rule snd_index_one)
  from should_index_readable [OF si] obtain content where rd: "files env p = Readable content"
    by blast
  let ?D = "snd (delete_by_path wh st p)"
  let ?h = "compute_file_hash env p"
  show ?thesis
  proof (cases "strip content = []")
    case True
    then have b: "\<And>s. index_file wh env s p = (Inr 0, s)" using rd by (simp add: index_file_blank)
    show ?thesis
    proof (cases "get_file_hash wh st p = Some ?h")
      case True
      then show ?thesis unfolding 1 by (simp add: b snd_index_one_skip)
    next
      case False
      then show ?thesis unfolding 1 using si by (simp add: b snd_index_one)
    qed
  next
    case nb: False
    have noD: "\<forall>c\<in>set (rows ?D). path c \<noteq> p" by (simp add: rows_delete_by_path [OF sp])
    from index_file_cases [OF sp rd nb, of st] show ?thesis
    proof (elim disjE exE conjE)
      fix r assume r: "index_file wh env st p = (r, ?D)"
      have "get_file_hash wh ?D p = None" using sp noD by (rule get_file_hash_none)
      then have "snd (index_one wh env False (cnt', ?D) p) = snd (index_file wh env ?D p)"
        using si by (intro snd_index_one) simp_all
      also have "\<dots> = ?D"
        using index_file_after_delete [OF sp rd nb, of st] r by simp
      finally show ?thesis unfolding 1 r by simp
    next
      fix cs assume ne: "cs \<noteq> []"
        and new: "\<forall>c\<in>set cs. path c = p \<and> file_hash c = ?h"
        and r: "index_file wh env st p = (Inr (int (length cs)), add_chunks ?D cs)"
      have "get_file_hash wh (add_chunks ?D cs) p = Some ?h"
        using sp noD ne new by (rule get_file_hash_added)
      then have "snd (index_one wh env False (cnt', add_chunks ?D cs) p) = add_chunks ?D cs"
        by (intro snd_index_one_skip) simp
      then show ?thesis unfolding 1 r by simp
    qed
  qed
qed

lemma index_file_uniform:
  assumes sp: "selects_path wh p"
    and rd: "files env p = Readable content" and nb: "strip content \<noteq> []"
  shows "\<exists>r cs. (\<forall>st. index_file wh env st p = (r, add_chunks (snd (delete_by_path wh st p)) cs))
           \<and> (\<forall>c\<in>set cs. path c = p \<and> file_hash c = compute_file_hash env p)"
proof -
  let ?lang = "detect_language env p"
  let ?h = "compute_file_hash env p"
  note idef = index_file_selects [OF sp]
  have e: "add_chunks s [] = s" for s by (simp add: add_chunks_def)
  show ?thesis
  proof (cases "chunker env ?lang content")
    case (Inl e')
    with rd nb
    have "\<forall>st. index_file wh env st p = (Inl e', add_chunks (snd (delete_by_path wh st p)) [])"
      by (simp add: idef Let_def e)
    then show ?thesis by (intro exI [of _ "Inl e'"] exI [of _ "[]"]) simp
  next
    case (Inr chunks_data)
    show ?thesis
    proof (cases "chunks_data = []")
      case True
      with rd nb Inr
      have "\<forall>st. index_file wh env st p = (Inr 0, add_chunks (snd (delete_by_path wh st p)) [])"
        by (simp add: idef Let_def e)
      then show ?thesis by (intro exI [of _ "Inr 0"] exI [of _ "[]"]) simp
    next
      case ne: False
      show ?thesis
      proof (cases "embed_batch env (map fst chunks_data)")
        case (Inl e')
        with rd nb Inr ne
        have "\<forall>st. index_file wh env st p
            = (Inl e', add_chunks (snd (delete_by_path wh st p)) [])"
          by (simp add: idef Let_def e)
        then show ?thesis by (intro exI [of _ "Inl e'"] exI [of _ "[]"]) simp
      next
        case em: (Inr embeddings)
        show ?thesis
        proof (cases "build_chunks env p ?lang ?h chunks_data embeddings")
          case (Inl e')
          with rd nb Inr ne em
          have "\<forall>st. index_file wh env st p
              = (Inl e', add_chunks (snd (delete_by_path wh st p)) [])"
            by (simp add: idef Let_def e)
          then show ?thesis by (intro exI [of _ "Inl e'"] exI [of _ "[]"]) simp
        next
          case bc: (Inr cs)
          with rd nb Inr ne em
          have "\<forall>st. index_file wh env st p =
              (Inr (int (length cs)), add_chunks (snd (delete_by_path wh st p)) cs)"
            by (simp add: idef Let_def)
          with build_chunks_props [OF bc] show ?thesis
            by (intro exI [of _ "Inr (int (length cs))"] exI [of _ cs]) simp
        qed
      qed
    qed
  qed
qed

lemma get_file_hash_cong:
  "selects_path wh p \<Longrightarrow>
   filter (\<lambda>c. path c = p) (rows st') = filter (\<lambda>c. path c = p) (rows st) \<Longrightarrow>
   get_file_hash wh st' p = get_file_hash wh st p"
  by (simp add: get_file_hash_selects)

lemma index_one_other_rows:
  assumes "q \<noteq> p" and sq: "selects_path wh q"
  shows "filter (\<lambda>c. path c = p) (rows (snd (index_one wh env force (cnt, st) q)))
       = filter (\<lambda>c. path c = p) (rows st)"
proof (cases "\<not> should_index_file env q
     \<or> (\<not> force \<and> get_file_hash wh st q = Some (compute_file_hash env q))")
  case True
  then show ?thesis by (simp add: snd_index_one_skip)
next
  case False
  then have si: "should_index_file env q"
    and go: "force \<or> get_file_hash wh st q \<noteq> Some (compute_file_hash env q)"
    by auto
  have 1: "snd (index_one wh env force (cnt, st) q) = snd (index_file wh env st q)"
    using si go by (rule snd_index_one)
  from should_index_readable [OF si] obtain content where rd: "files env q = Readable content"
    by blast
  show ?thesis
  proof (cases "strip content = []")
    case True
    with rd show ?thesis unfolding 1 by (simp add: index_file_blank)
  next
    case False
    from index_file_uniform [OF sq rd False] obtain r cs
      where r: "index_file wh env st q = (r, add_chunks (snd (delete_by_path wh st q)) cs)"
        and cs: "\<forall>c\<in>set cs. path c = q \<and> file_hash c = compute_file_hash env q"
      by blast
    have "filter (\<lambda>c. path c = p) cs = []"
      using cs assms by (auto simp: filter_empty_conv)
    moreover have "filter (\<lambda>c. path c = p) (filter (\<lambda>c. path c \<noteq> q) (rows st))
        = filter (\<lambda>c. path c = p) (rows st)"
      using assms by (auto intro: filter_cong)
    ultimately show ?thesis
      unfolding 1 r by (simp add: rows_add_chunks rows_delete_by_path [OF sq])
  qed
qed

lemma stable_other:
  assumes qp: "q \<noteq> p" and sq: "selects_path wh q" and sp: "selects_path wh p"
    and st: "stable_file wh env st p"
  shows "stable_file wh env (snd (index_one wh env force (cnt, st) q)) p"
proof -
  let ?st' = "snd (index_one wh env force (cnt, st) q)"
  let ?h = "compute_file_hash env p"
  have rows_p: "filter (\<lambda>c. path c = p) (rows ?st') = filter (\<lambda>c. path c = p) (rows st)"
    using qp sq by (rule index_one_other_rows)
  have gh: "get_file_hash wh ?st' p = get_file_hash wh st p"
    using sp rows_p by (rule get_file_hash_cong)
  show ?thesis
  proof (cases "\<not> should_index_file env p \<or> get_file_hash wh st p = Some ?h")
    case True
    then show ?thesis
      unfolding stable_file_def using gh by (simp add: snd_index_one_skip)
  next
    case False
    then have si: "should_index_file env p" and nh: "get_file_hash wh st p \<noteq> Some ?h" by auto
    from should_index_readable [OF si] obtain content where rd: "files env p = Readable content"
      by blast
    have s1: "snd (index_one wh env False (c, s) p) = snd (index_file wh env s p)"
      if "get_file_hash wh s p \<noteq> Some ?h" for c s
      using si that by (intro snd_index_one) simp_all
    show ?thesis
    proof (cases "strip content = []")
      case True
      show ?thesis
        unfolding stable_file_def using nh gh rd True by (simp add: s1 index_file_blank)
    next
      case nb: False
      from index_file_uniform [OF sp rd nb] obtain r cs
        where r: "\<And>s. index_file wh env s p = (r, add_chunks (snd (delete_by_path wh s p)) cs)"
          and cs: "\<forall>c\<in>set cs. path c = p \<and> file_hash c = ?h"
        by blast
      from st have fx: "add_chunks (snd (delete_by_path wh st p)) cs = st"
        unfolding stable_file_def using s1 [OF nh] r by simp
      have noD: "\<forall>c\<in>set (rows (snd (delete_by_path wh st p))). path c \<noteq> p"
        by (simp add: rows_delete_by_path [OF sp])
      have cs0: "cs = []"
      proof (rule ccontr)
        assume "cs \<noteq> []"
        from get_file_hash_added [OF sp noD this cs] fx nh show False by simp
      qed
      with fx have "snd (delete_by_path wh st p) = st" by (simp add: add_chunks_def)
      then have "rows st = filter (\<lambda>c. path c \<noteq> p) (rows st)"
        using rows_delete_by_path [OF sp, of st] by simp
      then have "filter (\<lambda>c. path c = p) (rows st) = []"
        by (metis (mono_tags, lifting) filter_empty_conv mem_Collect_eq set_filter)
      with rows_p have "\<forall>c\<in>set (rows ?st'). path c \<noteq> p"
        by (simp add: filter_empty_conv)
      with sp have "snd (delete_by_path wh ?st' p) = ?st'" by (rule delete_by_path_none)
      then have "snd (index_file wh env ?st' p) = ?st'"
        using r [of ?st'] cs0 by (simp add: add_chunks_def)
      then show ?thesis
        unfolding stable_file_def using nh gh by (simp add: s1)
    qed
  qed
qed

lemma stable_self:
  "selects_path wh p \<Longrightarrow> stable_file wh env (snd (index_one wh env force (cnt, st) p)) p"
  unfolding stable_file_def by (simp add: index_one_roundtrip)

lemma pass_stable:
  "\<forall>p\<in>set ds \<union> set fs. selects_path wh p \<Longrightarrow> \<forall>p\<in>set ds. stable_file wh env st p \<Longrightarrow>
   \<forall>p\<in>set ds \<union> set fs. stable_file wh env (snd (foldl (index_one wh env force) (cnt, st) fs)) p"
proof (induction fs arbitrary: cnt st ds)
  case Nil
  then show ?case by simp
next
  case (Cons f fs)
  obtain cnt' st' where step: "index_one wh env force (cnt, st) f = (cnt', st')"
    by (cases "index_one wh env force (cnt, st) f")
  from Cons.prems(1) have sf: "selects_path wh f" by simp
  have "\<forall>p\<in>set (f # ds). stable_file wh env st' p"
  proof
    fix p assume "p \<in> set (f # ds)"
    then consider "p = f" | "p \<noteq> f" "p \<in> set ds" by auto
    then show "stable_file wh env st' p"
    proof cases
      case 1
      then show ?thesis using stable_self [OF sf, of env force cnt st] step by simp
    next
      case 2
      then have "selects_path wh p" "stable_file wh env st p" using Cons.prems by auto
      with 2 sf show ?thesis
        using stable_other [of f p wh env st force cnt] step by auto
    qed
  qed
  moreover have "\<forall>p\<in>set (f # ds) \<union> set fs. selects_path wh p" using Cons.prems(1) by auto
  ultimately have "\<forall>p\<in>set (f # ds) \<union> set fs.
      stable_file wh env (snd (foldl (index_one wh env force) (cnt', st') fs)) p"
    by (rule Cons.IH [rotated])
  then show ?case by (auto simp: step)
qed

lemma pass_unchanged:
  "\<forall>p\<in>set fs. stable_file wh env st p \<Longrightarrow>
   snd (foldl (index_one wh env False) (cnt, st) fs) = st"
proof (induction fs arbitrary: cnt)
  case Nil
  show ?case by simp
next
  case (Cons f fs)
  obtain cnt' st' where step: "index_one wh env False (cnt, st) f = (cnt', st')"
    by (cases "index_one wh env False (cnt, st) f")
  from Cons.prems have "stable_file wh env st f" by simp
  then have "st' = st" unfolding stable_file_def using step by (metis snd_conv)
  with Cons.IH [of cnt'] Cons.prems step show ?case by simp
qed

lemma index_files_serial_roundtrip:
  assumes "\<forall>p\<in>set fs. selects_path wh p"
  shows "snd (index_files_serial wh env (snd (index_files_serial wh env st fs force)) fs False)
     = snd (index_files_serial wh env st fs force)"
proof -
  have "\<forall>p\<in>set [] \<union> set fs.
      stable_file wh env (snd (foldl (index_one wh env force) ((0, 0, 0), st) fs)) p"
    using assms by (intro pass_stable) simp_all
  then show ?thesis
    unfolding index_files_serial_def by (intro pass_unchanged) simp
qed

lemma index_one_inserts:
  assumes sp: "selects_path wh p" and si: "should_index_file env p"
    and go: "force \<or> get_file_hash wh st p \<noteq> Some (compute_file_hash env p)"
    and rd: "files env p = Readable content" and nb: "strip content \<noteq> []"
    and ch: "chunker env (detect_language env p) content = Inr cd" and ne: "cd \<noteq> []"
    and em: "embed_batch env (map fst cd) = Inr em"
    and ok: "\<forall>x\<in>set (zip cd em).
        CodeChunk_valid (chunk_fields env p (detect_language env p) (compute_file_hash env p) x)"
  shows "index_one wh env force ((i, t, s), st) p =
      ((if zip cd em = [] then (i, t, s) else (i + 1, t + int (length (zip cd em)), s)),
       add_chunks (snd (delete_by_path wh st p))
         (map (chunk_fields env p (detect_language env p) (compute_file_hash env p))
            (zip cd em)))"
proof -
  let ?cs = "map (chunk_fields env p (detect_language env p) (compute_file_hash env p))
      (zip cd em)"
  have bc: "build_chunks env p (detect_language env p) (compute_file_hash env p) cd em = Inr ?cs"
    using ok by (simp add: build_chunks_Inr_iff)
  have "index_file wh env st p
      = (Inr (int (length ?cs)), add_chunks (snd (delete_by_path wh st p)) ?cs)"
    using rd nb ch ne em bc by (simp add: index_file_selects [OF sp] Let_def)
  then show ?thesis
    using si go by (auto simp: index_one_def)
qed

lemma index_one_deletes_only:
  assumes sp: "selects_path wh p" and si: "should_index_file env p"
    and go: "force \<or> get_file_hash wh st p \<noteq> Some (compute_file_hash env p)"
    and rd: "files env p = Readable content" and nb: "strip content \<noteq> []"
    and fail: "chunker env (detect_language env p) content = Inl err_c
       \<or> chunker env (detect_language env p) content = Inr []
       \<or> chunker env (detect_language env p) content = Inr cd
          \<and> (embed_batch env (map fst cd) = Inl err_e
             \<or> embed_batch env (map fst cd) = Inr em
                \<and> \<not> (\<forall>x\<in>set (zip cd em).
                      CodeChunk_valid
                        (chunk_fields env p (detect_language env p) (compute_file_hash env p) x)))"
  shows "index_one wh env force ((i, t, s), st) p = ((i, t, s), snd (delete_by_path wh st p))"
proof -
  let ?D = "snd (delete_by_path wh st p)"
  have "\<exists>r. index_file wh env st p = (r, ?D) \<and> (\<forall>n. r = Inr n \<longrightarrow> n = 0)"
    using fail
  proof (elim disjE conjE)
    assume "chunker env (detect_language env p) content = Inl err_c"
    with rd nb show ?thesis by (simp add: index_file_selects [OF sp] Let_def)
  next
    assume "chunker env (detect_language env p) content = Inr []"
    with rd nb show ?thesis by (simp add: index_file_selects [OF sp] Let_def)
  next
    assume "chunker env (detect_language env p) content = Inr cd"
      "embed_batch env (map fst cd) = Inl err_e"
    with rd nb show ?thesis by (simp add: index_file_selects [OF sp] Let_def)
  next
    assume c: "chunker env (detect_language env p) content = Inr cd"
      and e: "embed_batch env (map fst cd) = Inr em"
      and bad: "\<not> (\<forall>x\<in>set (zip cd em).
          CodeChunk_valid
            (chunk_fields env p (detect_language env p) (compute_file_hash env p) x))"
    from bad obtain err where
      "build_chunks env p (detect_language env p) (compute_file_hash env p) cd em = Inl err"
      using build_chunks_Inr_iff
        [of env p "detect_language env p" "compute_file_hash env p" cd em]
      by (cases "build_chunks env p (detect_language env p) (compute_file_hash env p) cd em")
        auto
    with rd nb c e show ?thesis by (simp add: index_file_selects [OF sp] Let_def)
  qed
  then obtain r where r: "index_file wh env st p = (r, ?D)" and z: "\<forall>n. r = Inr n \<longrightarrow> n = 0"
    by blast
  show ?thesis
    using si go r z by (cases r) (auto simp: index_one_def)
qed

text \<open>
  Claim C1, amended.  The statements are for paths whose predicate \<open>path = '<path>'\<close> the
  engine reads as the comparison with that path; then the stored hash of a path is the
  hash of its first stored chunk and \<open>delete_by_path\<close> removes exactly the chunks of
  the path.  Round trip: running the serial indexing loop over a list of such files and
  then again with \<open>force=False\<close>, the files unchanged, leaves the store exactly as the
  first run left it, so the chunk count does not change; the same holds for one file.
  A file that passes \<open>should_index_file\<close> is skipped when \<open>force\<close> is false and the
  hash computed equals the hash stored for its path: no chunk is deleted or inserted and
  the file is counted as skipped.  In every other case (no stored hash, another hash, or
  \<open>force\<close>), provided the file passes \<open>should_index_file\<close> and its content is not
  blank, all chunks stored for the path are deleted first; then, when the chunker returns
  chunks, the embedding model returns vectors and every chunk built from a pair of
  the two is valid, exactly these chunks are appended, in order, each with the path, the
  language, the new hash and the branch; when the chunker returns nothing, or the
  chunker, the embedding model or the validation raises, nothing is inserted after the
  deletion.
\<close>

theorem incremental_reindex:
  "((\<forall>q\<in>set fs. selects_path wh q) \<longrightarrow>
      snd (index_files_serial wh env (snd (index_files_serial wh env st fs force)) fs False)
        = snd (index_files_serial wh env st fs force)
      \<and> length (rows (snd (index_files_serial wh env
                             (snd (index_files_serial wh env st fs force)) fs False)))
        = length (rows (snd (index_files_serial wh env st fs force))))
   \<and> (selects_path wh p \<longrightarrow>
        snd (index_one wh env False (cnt', snd (index_one wh env force (cnt, st) p)) p)
          = snd (index_one wh env force (cnt, st) p))
   \<and> (selects_path wh p \<longrightarrow>
        get_file_hash wh st p
          = (case filter (\<lambda>c. path c = p) (rows st) of
               [] \<Rightarrow> None | c # cs \<Rightarrow> Some (file_hash c))
        \<and> snd (delete_by_path wh st p) = st\<lparr>rows := filter (\<lambda>c. path c \<noteq> p) (rows st)\<rparr>)
   \<and> (should_index_file env p \<and> \<not> force
        \<and> get_file_hash wh st p = Some (compute_file_hash env p)
      \<longrightarrow> index_one wh env force ((i, t, s), st) p = ((i, t, s + 1), st))
   \<and> (selects_path wh p \<and> should_index_file env p
        \<and> (force \<or> get_file_hash wh st p \<noteq> Some (compute_file_hash env p))
        \<and> files env p = Readable content \<and> strip content \<noteq> []
        \<and> chunker env (detect_language env p) content = Inr cd \<and> cd \<noteq> []
        \<and> embed_batch env (map fst cd) = Inr em
        \<and> (\<forall>x\<in>set (zip cd em).
              CodeChunk_valid
                (chunk_fields env p (detect_language env p) (compute_file_hash env p) x))
      \<longrightarrow> index_one wh env force ((i, t, s), st) p
             = ((if zip cd em = [] then (i, t, s)
                 else (i + 1, t + int (length (zip cd em)), s)),
                add_chunks (snd (delete_by_path wh st p))
                  (map (chunk_fields env p (detect_language env p) (compute_file_hash env p))
                     (zip cd em)))
          \<and> rows (snd (index_one wh env force ((i, t, s), st) p))
             = filter (\<lambda>c. path c \<noteq> p) (rows st)
               @ map (chunk_fields env p (detect_language env p) (compute_file_hash env p))
                   (zip cd em))
   \<and> (selects_path wh p \<and> should_index_file env p
        \<and> (force \<or> get_file_hash wh st p \<noteq> Some (compute_file_hash env p))
        \<and> files env p = Readable content \<and> strip content \<noteq> []
        \<and> (chunker env (detect_language env p) content = Inl err_c
           \<or> chunker env (detect_language env p) content = Inr []
           \<or> chunker env (detect_language env p) content = Inr cd'
              \<and> (embed_batch env (map fst cd') = Inl err_e
                 \<or> embed_batch env (map fst cd') = Inr em'
                    \<and> \<not> (\<forall>x\<in>set (zip cd' em').
                          CodeChunk_valid
                            (chunk_fields env p (detect_language env p)
                               (compute_file_hash env p) x))))
      \<longrightarrow> index_one wh env force ((i, t, s), st) p
             = ((i, t, s), st\<lparr>rows := filter (\<lambda>c. path c \<noteq> p) (rows st)\<rparr>))"
proof -
  have 1: "(\<forall>q\<in>set fs. selects_path wh q) \<longrightarrow>
      snd (index_files_serial wh env (snd (index_files_serial wh env st fs force)) fs False)
        = snd (index_files_serial wh env st fs force)
      \<and> length (rows (snd (index_files_serial wh env
                             (snd (index_files_serial wh env st fs force)) fs False)))
        = length (rows (snd (index_files_serial wh env st fs force)))"
    using index_files_serial_roundtrip [of fs wh env st force] by simp
  have 2: "selects_path wh p \<longrightarrow>
        snd (index_one wh env False (cnt', snd (index_one wh env force (cnt, st) p)) p)
          = snd (index_one wh env force (cnt, st) p)"
    using index_one_roundtrip [of wh p env cnt' force cnt st] by blast
  have 3: "selects_path wh p \<longrightarrow>
        get_file_hash wh st p
          = (case filter (\<lambda>c. path c = p) (rows st) of
               [] \<Rightarrow> None | c # cs \<Rightarrow> Some (file_hash c))
        \<and> snd (delete_by_path wh st p) = st\<lparr>rows := filter (\<lambda>c. path c \<noteq> p) (rows st)\<rparr>"
    using get_file_hash_selects [of wh p st] delete_by_path_selects [of wh p st] by simp
  have 4: "should_index_file env p \<and> \<not> force
        \<and> get_file_hash wh st p = Some (compute_file_hash env p)
      \<longrightarrow> index_one wh env force ((i, t, s), st) p = ((i, t, s + 1), st)"
    using index_one_unchanged [of env p force wh st i t s] by blast
  have 5: "selects_path wh p \<and> should_index_file env p
        \<and> (force \<or> get_file_hash wh st p \<noteq> Some (compute_file_hash env p))
        \<and> files env p = Readable content \<and> strip content \<noteq> []
        \<and> chunker env (detect_language env p) content = Inr cd \<and> cd \<noteq> []
        \<and> embed_batch env (map fst cd) = Inr em
        \<and> (\<forall>x\<in>set (zip cd em).
              CodeChunk_valid
                (chunk_fields env p (detect_language env p) (compute_file_hash env p) x))
      \<longrightarrow> index_one wh env force ((i, t, s), st) p
             = ((if zip cd em = [] then (i, t, s)
                 else (i + 1, t + int (length (zip cd em)), s)),
                add_chunks (snd (delete_by_path wh st p))
                  (map (chunk_fields env p (detect_language env p) (compute_file_hash env p))
                     (zip cd em)))
          \<and> rows (snd (index_one wh env force ((i, t, s), st) p))
             = filter (\<lambda>c. path c \<noteq> p) (rows st)
               @ map (chunk_fields env p (detect_language env p) (compute_file_hash env p))
                   (zip cd em)"
  proof (intro impI, elim conjE)
    assume sp: "selects_path wh p" and si: "should_index_file env p"
      and go: "force \<or> get_file_hash wh st p \<noteq> Some (compute_file_hash env p)"
      and rd: "files env p = Readable content" and nb: "strip content \<noteq> []"
      and ch: "chunker env (detect_language env p) content = Inr cd" and ne: "cd \<noteq> []"
      and em: "embed_batch env (map fst cd) = Inr em"
      and ok: "\<forall>x\<in>set (zip cd em).
          CodeChunk_valid
            (chunk_fields env p (detect_language env p) (compute_file_hash env p) x)"
    note r = index_one_inserts [OF sp si go rd nb ch ne em ok, of i t s]
    show "index_one wh env force ((i, t, s), st) p
             = ((if zip cd em = [] then (i, t, s)
                 else (i + 1, t + int (length (zip cd em)), s)),
                add_chunks (snd (delete_by_path wh st p))
                  (map (chunk_fields env p (detect_language env p) (compute_file_hash env p))
                     (zip cd em)))
          \<and> rows (snd (index_one wh env force ((i, t, s), st) p))
             = filter (\<lambda>c. path c \<noteq> p) (rows st)
               @ map (chunk_fields env p (detect_language env p) (compute_file_hash env p))
                   (zip cd em)"
      unfolding r by (simp add: rows_add_chunks rows_delete_by_path [OF sp])
  qed
  have 6: "selects_path wh p \<and> should_index_file env p
        \<and> (force \<or> get_file_hash wh st p \<noteq> Some (compute_file_hash env p))
        \<and> files env p = Readable content \<and> strip content \<noteq> []
        \<and> (chunker env (detect_language env p) content = Inl err_c
           \<or> chunker env (detect_language env p) content = Inr []
           \<or> chunker env (detect_language env p) content = Inr cd'
              \<and> (embed_batch env (map fst cd') = Inl err_e
                 \<or> embed_batch env (map fst cd') = Inr em'
                    \<and> \<not> (\<forall>x\<in>set (zip cd' em').
                          CodeChunk_valid
                            (chunk_fields env p (detect_language env p)
                               (compute_file_hash env p) x))))
      \<longrightarrow> index_one wh env force ((i, t, s), st) p
             = ((i, t, s), st\<lparr>rows := filter (\<lambda>c. path c \<noteq> p) (rows st)\<rparr>)"
  proof (intro impI, elim conjE)
    assume sp: "selects_path wh p" and si: "should_index_file env p"
      and go: "force \<or> get_file_hash wh st p \<noteq> Some (compute_file_hash env p)"
      and rd: "files env p = Readable content" and nb: "strip content \<noteq> []"
      and fail: "chunker env (detect_language env p) content = Inl err_c
           \<or> chunker env (detect_language env p) content = Inr []
           \<or> chunker env (detect_language env p) content = Inr cd'
              \<and> (embed_batch env (map fst cd') = Inl err_e
                 \<or> embed_batch env (map fst cd') = Inr em'
                    \<and> \<not> (\<forall>x\<in>set (zip cd' em').
                          CodeChunk_valid
                            (chunk_fields env p (detect_language env p)
                               (compute_file_hash env p) x)))"
    show "index_one wh env force ((i, t, s), st) p
             = ((i, t, s), st\<lparr>rows := filter (\<lambda>c. path c \<noteq> p) (rows st)\<rparr>)"
      using index_one_deletes_only [OF sp si go rd nb fail, of i t s]
      by (simp add: delete_by_path_selects [OF sp])
  qed
  show ?thesis
    using 1 2 3 4 5 6 by blast
qed

lemma sample_selects: "selects_path sample_where ''a.txt''"
  by (rule selects_path_sample) simp

theorem incremental_reindex_witness:
  "selects_path sample_where ''a.txt''
   \<and> index_files_serial sample_where (sample_env ''hello'') (sample_store\<lparr>rows := []\<rparr>)
       [''a.txt''] False
     = ((1, 1, 0),
        sample_store\<lparr>rows :=
          [\<lparr>start_line = 1, end_line = 1, chunk_type = ''block'', name = None,
            vector = replicate 384 0, chunk_text = ''hello'', path = ''a.txt'',
            language = ''text'', file_hash = ''sha256:hello'', indexed_at = 0,
            branch = None\<rparr>]\<rparr>)
   \<and> snd (index_files_serial sample_where (sample_env ''hello'')
            (snd (index_files_serial sample_where (sample_env ''hello'')
                    (sample_store\<lparr>rows := []\<rparr>) [''a.txt''] False))
            [''a.txt''] False)
     = snd (index_files_serial sample_where (sample_env ''hello'')
              (sample_store\<lparr>rows := []\<rparr>) [''a.txt''] False)
   \<and> get_file_hash sample_where (sample_store\<lparr>rows := []\<rparr>) ''a.txt'' = None
   \<and> get_file_hash sample_where
         (snd (index_files_serial sample_where (sample_env ''hello'')
                 (sample_store\<lparr>rows := []\<rparr>) [''a.txt''] False)) ''a.txt''
       = Some (compute_file_hash (sample_env ''hello'') ''a.txt'')
   \<and> index_one sample_where (sample_env ''hello'') False
         ((1, 1, 0),
          snd (index_files_serial sample_where (sample_env ''hello'')
                 (sample_store\<lparr>rows := []\<rparr>) [''a.txt''] False)) ''a.txt''
       = ((1, 1, 1),
          snd (index_files_serial sample_where (sample_env ''hello'')
                 (sample_store\<lparr>rows := []\<rparr>) [''a.txt''] False))
   \<and> index_one sample_where ((sample_env ''hello'')\<lparr>chunker := \<lambda>lang c. Inr []\<rparr>) True
         ((0, 0, 0), sample_store\<lparr>rows := [chunk (sample_result ''a.txt'' 1 10 (9 / 10))]\<rparr>)
         ''a.txt''
       = ((0, 0, 0), sample_store\<lparr>rows := []\<rparr>)"
proof -
  let ?env = "sample_env ''hello''"
  let ?envn = "(sample_env ''hello'')\<lparr>chunker := \<lambda>lang c. Inr []\<rparr>"
  let ?st0 = "sample_store\<lparr>rows := []\<rparr>"
  let ?old = "sample_store\<lparr>rows := [chunk (sample_result ''a.txt'' 1 10 (9 / 10))]\<rparr>"
  let ?c = "\<lparr>start_line = 1, end_line = 1, chunk_type = ''block'', name = None,
         vector = replicate 384 0, chunk_text = ''hello'', path = ''a.txt'',
         language = ''text'', file_hash = ''sha256:hello'', indexed_at = 0, branch = None\<rparr>"
  let ?cd = "[(''hello'', \<lparr>start_line = 1, end_line = 1, chunk_type = ''block'',
                            name = None\<rparr>)]"
  let ?em = "[replicate 384 (0::real)]"
  let ?st1 = "sample_store\<lparr>rows := [?c]\<rparr>"
  note sp = sample_selects
  have si: "should_index_file ?env ''a.txt''" "should_index_file ?envn ''a.txt''"
    by (simp_all add: should_index_file_def sample_env_def)
  have h: "compute_file_hash ?env ''a.txt'' = ''sha256:hello''"
    by (simp add: compute_file_hash_def sample_env_def)
  have l: "detect_language ?env ''a.txt'' = ''text''" by (simp add: sample_env_def)
  have rd: "files ?env ''a.txt'' = Readable ''hello''" "files ?envn ''a.txt'' = Readable ''hello''"
    by (simp_all add: sample_env_def)
  have nb: "strip ''hello'' \<noteq> []" by (simp add: strip_def is_space_def)
  have ch: "chunker ?env (detect_language ?env ''a.txt'') ''hello'' = Inr ?cd"
    by (simp add: sample_env_def)
  have ch0: "chunker ?envn (detect_language ?envn ''a.txt'') ''hello'' = Inr []"
    by simp
  have em: "embed_batch ?env (map fst ?cd) = Inr ?em" by (simp add: sample_env_def)
  have cf: "chunk_fields ?env ''a.txt'' ''text'' ''sha256:hello'' (hd ?cd, hd ?em) = ?c"
    by (simp add: chunk_fields_def sample_env_def)
  have ok: "\<forall>x\<in>set (zip ?cd ?em).
      CodeChunk_valid
        (chunk_fields ?env ''a.txt'' (detect_language ?env ''a.txt'')
           (compute_file_hash ?env ''a.txt'') x)"
    using cf by (simp add: l h CodeChunk_valid_def)
  have g0: "get_file_hash sample_where ?st0 ''a.txt'' = None"
    by (simp add: get_file_hash_selects [OF sp])
  have g1: "get_file_hash sample_where ?st1 ''a.txt'' = Some ''sha256:hello''"
    by (simp add: get_file_hash_selects [OF sp])
  have d0: "snd (delete_by_path sample_where ?st0 ''a.txt'') = ?st0"
    by (simp add: delete_by_path_selects [OF sp])
  have a0: "add_chunks ?st0 [?c] = ?st1"
    by (simp add: add_chunks_def clear_cache_def sample_store_def)
  have fo: "filter (\<lambda>c. path c \<noteq> ''a.txt'') (rows ?old) = []"
    by (simp add: sample_result_def)
  note inst0 = incremental_reindex [where wh = sample_where and env = ?env and st = ?st0
      and fs = "[''a.txt'']" and force = False and p = "''a.txt''" and cnt = "(0, 0, 0)"
      and cnt' = "(0, 0, 0)" and content = "''hello''" and i = 0 and t = 0 and s = 0
      and cd = ?cd and em = ?em and cd' = "[]" and em' = "[]" and err_c = TypeError
      and err_e = TypeError]
  note inst1 = incremental_reindex [where wh = sample_where and env = ?env and st = ?st1
      and fs = "[''a.txt'']" and force = False and p = "''a.txt''" and cnt = "(0, 0, 0)"
      and cnt' = "(0, 0, 0)" and content = "''hello''" and i = 1 and t = 1 and s = 0
      and cd = ?cd and em = ?em and cd' = "[]" and em' = "[]" and err_c = TypeError
      and err_e = TypeError]
  note inst2 = incremental_reindex [where wh = sample_where and env = ?envn and st = ?old
      and fs = "[''a.txt'']" and force = True and p = "''a.txt''" and cnt = "(0, 0, 0)"
      and cnt' = "(0, 0, 0)" and content = "''hello''" and i = 0 and t = 0 and s = 0
      and cd = ?cd and em = ?em and cd' = "[]" and em' = "[]" and err_c = TypeError
      and err_e = TypeError]
  have c5: "index_one sample_where ?env False ((0, 0, 0), ?st0) ''a.txt'' = ((1, 1, 0), ?st1)"
    using inst0 sp si(1) g0 rd(1) nb ch em ok cf d0 a0 l h by (elim conjE) simp
  then have fp: "index_files_serial sample_where ?env ?st0 [''a.txt''] False = ((1, 1, 0), ?st1)"
    by (simp add: index_files_serial_def)
  have c1: "snd (index_files_serial sample_where ?env
                   (snd (index_files_serial sample_where ?env ?st0 [''a.txt''] False))
                   [''a.txt''] False)
      = snd (index_files_serial sample_where ?env ?st0 [''a.txt''] False)"
    using inst0 sp by (elim conjE) simp
  have c4: "index_one sample_where ?env False ((1, 1, 0), ?st1) ''a.txt'' = ((1, 1, 1), ?st1)"
    using inst1 si(1) g1 h by (elim conjE) simp
  have c6: "index_one sample_where ?envn True ((0, 0, 0), ?old) ''a.txt'' = ((0, 0, 0), ?st0)"
    using inst2 sp si(2) rd(2) nb ch0 fo by (elim conjE) simp
  show ?thesis
    using sp fp c1 g0 g1 h c4 c6 by simp
qed

text \<open>
  Claim C1, as stated, fails in two ways.  For a file whose content has become blank,
  \<open>_index_file\<close> returns before it deletes anything, so with \<open>force=True\<close>, and
  likewise with a hash that differs from the stored one, the chunk stored for the path
  is still there.  And a path is written into the predicate between quotes as it is: for
  the file \<open>it's.txt\<close>, with an engine that rejects the unbalanced quote, no stored hash
  is found, \<open>delete_by_path\<close> raises, and the file, readable and not blank, gets no
  chunk, with and without \<open>force\<close>.
\<close>

theorem reindex_blank_file_counterexample:
  "should_index_file (sample_env [CHR 0x20]) ''a.txt''
   \<and> files (sample_env [CHR 0x20]) ''a.txt'' = Readable [CHR 0x20]
   \<and> rows (sample_store\<lparr>rows := [chunk (sample_result ''a.txt'' 1 10 (9 / 10))]\<rparr>)
       = [chunk (sample_result ''a.txt'' 1 10 (9 / 10))]
   \<and> path (chunk (sample_result ''a.txt'' 1 10 (9 / 10))) = ''a.txt''
   \<and> get_file_hash sample_where
         (sample_store\<lparr>rows := [chunk (sample_result ''a.txt'' 1 10 (9 / 10))]\<rparr>) ''a.txt''
       \<noteq> Some (compute_file_hash (sample_env [CHR 0x20]) ''a.txt'')
   \<and> index_one sample_where (sample_env [CHR 0x20]) True
         ((0, 0, 0), sample_store\<lparr>rows := [chunk (sample_result ''a.txt'' 1 10 (9 / 10))]\<rparr>)
         ''a.txt''
       = ((0, 0, 0), sample_store\<lparr>rows := [chunk (sample_result ''a.txt'' 1 10 (9 / 10))]\<rparr>)
   \<and> index_one sample_where (sample_env [CHR 0x20]) False
         ((0, 0, 0), sample_store\<lparr>rows := [chunk (sample_result ''a.txt'' 1 10 (9 / 10))]\<rparr>)
         ''a.txt''
       = ((0, 0, 0), sample_store\<lparr>rows := [chunk (sample_result ''a.txt'' 1 10 (9 / 10))]\<rparr>)
   \<and> should_index_file ((sample_env ''hello'')\<lparr>files := \<lambda>p. Readable ''hello''\<rparr>)
         (''it'' @ [CHR 0x27] @ ''s.txt'')
   \<and> strip ''hello'' \<noteq> []
   \<and> get_file_hash sample_where (sample_store\<lparr>rows := []\<rparr>) (''it'' @ [CHR 0x27] @ ''s.txt'')
       = None
   \<and> index_one sample_where ((sample_env ''hello'')\<lparr>files := \<lambda>p. Readable ''hello''\<rparr>) True
         ((0, 0, 0), sample_store\<lparr>rows := []\<rparr>) (''it'' @ [CHR 0x27] @ ''s.txt'')
       = ((0, 0, 0), sample_store\<lparr>rows := []\<rparr>)
   \<and> index_one sample_where ((sample_env ''hello'')\<lparr>files := \<lambda>p. Readable ''hello''\<rparr>) False
         ((0, 0, 0), sample_store\<lparr>rows := []\<rparr>) (''it'' @ [CHR 0x27] @ ''s.txt'')
       = ((0, 0, 0), sample_store\<lparr>rows := []\<rparr>)"
proof -
  let ?q = "''it'' @ [CHR 0x27] @ ''s.txt''"
  let ?env = "(sample_env ''hello'')\<lparr>files := \<lambda>p. Readable ''hello''\<rparr>"
  let ?st0 = "sample_store\<lparr>rows := []\<rparr>"
  have blank: "should_index_file (sample_env [CHR 0x20]) ''a.txt''
     \<and> files (sample_env [CHR 0x20]) ''a.txt'' = Readable [CHR 0x20]
     \<and> rows (sample_store\<lparr>rows := [chunk (sample_result ''a.txt'' 1 10 (9 / 10))]\<rparr>)
         = [chunk (sample_result ''a.txt'' 1 10 (9 / 10))]
     \<and> path (chunk (sample_result ''a.txt'' 1 10 (9 / 10))) = ''a.txt''
     \<and> get_file_hash sample_where
           (sample_store\<lparr>rows := [chunk (sample_result ''a.txt'' 1 10 (9 / 10))]\<rparr>) ''a.txt''
         \<noteq> Some (compute_file_hash (sample_env [CHR 0x20]) ''a.txt'')
     \<and> index_one sample_where (sample_env [CHR 0x20]) True
           ((0, 0, 0), sample_store\<lparr>rows := [chunk (sample_result ''a.txt'' 1 10 (9 / 10))]\<rparr>)
           ''a.txt''
         = ((0, 0, 0), sample_store\<lparr>rows := [chunk (sample_result ''a.txt'' 1 10 (9 / 10))]\<rparr>)
     \<and> index_one sample_where (sample_env [CHR 0x20]) False
           ((0, 0, 0), sample_store\<lparr>rows := [chunk (sample_result ''a.txt'' 1 10 (9 / 10))]\<rparr>)
           ''a.txt''
         = ((0, 0, 0), sample_store\<lparr>rows := [chunk (sample_result ''a.txt'' 1 10 (9 / 10))]\<rparr>)"
    by (simp add: index_one_def should_index_file_def sample_env_def compute_file_hash_def
        get_file_hash_selects [OF sample_selects] index_file_def strip_def is_space_def
        sample_store_def sample_result_def)
  have si: "should_index_file ?env ?q" by (simp add: should_index_file_def sample_env_def)
  have nb: "strip ''hello'' \<noteq> []" by (simp add: strip_def is_space_def)
  have wq: "sample_where (''path = '' @ [CHR 0x27] @ ?q @ [CHR 0x27])
      = Inl (ValueError ''invalid predicate'')"
    using sample_where_quote by simp
  have g: "get_file_hash sample_where ?st0 ?q = None"
    unfolding get_file_hash_def wq by simp
  have f: "index_file sample_where ?env ?st0 ?q = (Inl (ValueError ''invalid predicate''), ?st0)"
    by (rule index_file_raises [where wh = sample_where and p = ?q, OF _ nb wq]) simp
  have i1: "index_one sample_where ?env True ((0, 0, 0), ?st0) ?q = ((0, 0, 0), ?st0)"
    using si f by (simp add: index_one_def)
  have i2: "index_one sample_where ?env False ((0, 0, 0), ?st0) ?q = ((0, 0, 0), ?st0)"
    using si f g by (simp add: index_one_def)
  show ?thesis
    using blank si nb g i1 i2 by blast
qed

end
